(* ===== verification/Prelude.thy ===== *)
theory Prelude
  imports Main
begin

text \<open>
  Shared vocabulary of the development: the names of the identifier types the
  program passes around, Python's \<open>str.lower\<close> on the characters Isabelle's
  \<open>char\<close> covers (code points 0--255, read as Latin-1), a decimal
  rendering of numbers used by the provider model for fresh label identifiers,
  and generic lemmas on lists that the component theories share.
\<close>

named_theorems model_simps "evaluation equations of the model's operations"
named_theorems frame_simps "facts that an operation leaves a part of the world unchanged"

type_synonym msg_id = string
type_synonym label_id = string
type_synonym scope = string

section \<open>Python's str.lower below code point 256\<close>

text \<open>Below 256, Python lowers exactly the upper-case letters \<open>A\<close>--\<open>Z\<close>
  (65--90) and the Latin-1 capitals 192--222 other than the multiplication
  sign 215, each by adding 32; every other code point maps to itself.\<close>

definition is_upper_latin1 :: "nat \<Rightarrow> bool" where
  "is_upper_latin1 n \<longleftrightarrow> (65 \<le> n \<and> n \<le> 90) \<or> (192 \<le> n \<and> n \<le> 222 \<and> n \<noteq> 215)"

definition lower_char :: "char \<Rightarrow> char" where
  "lower_char c =
     (let n = (of_char c :: nat) in if is_upper_latin1 n then char_of (n + 32) else c)"

definition lower :: "string \<Rightarrow> string" where
  "lower s = map lower_char s"

section \<open>Python's range with a positive step\<close>

text \<open>\<open>range(start, stop, step)\<close> for \<open>step > 0\<close>; the script only calls it with
  the constant step 1000 (Python raises \<open>ValueError\<close> for step 0, a case the
  script cannot reach).\<close>

function py_range :: "nat \<Rightarrow> nat \<Rightarrow> nat \<Rightarrow> nat list" where
  "py_range start stop step =
     (if 0 < step \<and> start < stop then start # py_range (start + step) stop step else [])"
  by pat_completeness auto
termination
  by (relation "measure (\<lambda>(start, stop, step). stop - start)") auto

section \<open>Decimal rendering of numbers\<close>

definition digit_char :: "nat \<Rightarrow> char" where
  "digit_char d = char_of (48 + d)"

fun dec_string :: "nat \<Rightarrow> string" where
  "dec_string n =
     (if n < 10 then [digit_char n] else dec_string (n div 10) @ [digit_char (n mod 10)])"

definition digit_val :: "char \<Rightarrow> nat" where
  "digit_val c = of_char c - 48"

definition parse_dec :: "string \<Rightarrow> nat" where
  "parse_dec s = foldl (\<lambda>a c. 10 * a + digit_val c) 0 s"

declare dec_string.simps [simp del] py_range.simps [simp del]
declare lower_def [model_simps] lower_char_def [model_simps] is_upper_latin1_def [model_simps] digit_char_def [model_simps]
  dec_string.simps [model_simps] char_of_eq_iff [model_simps] Let_def [model_simps]
  py_range.simps [model_simps]

section \<open>Lemmas on lowercasing\<close>

lemma lower_char_lower_char [simp]: "lower_char (lower_char c) = lower_char c"
proof (cases "is_upper_latin1 (of_char c)")
  case True
  moreover have "(of_char c :: nat) < 256" by (rule nat_of_char_less_256)
  ultimately have "(of_char (char_of (of_char c + 32 :: nat)) :: nat) = of_char c + 32"
    by (auto simp: is_upper_latin1_def of_char_of)
  moreover have "\<not> is_upper_latin1 (of_char c + 32)"
    using True unfolding is_upper_latin1_def by presburger
  ultimately show ?thesis
    using True by (simp add: lower_char_def Let_def)
next
  case False
  then have "lower_char c = c" by (simp add: lower_char_def Let_def)
  then show ?thesis by simp
qed

lemma lower_lower [simp]: "lower (lower s) = lower s"
  by (simp add: lower_def comp_def)

lemma lower_Nil [simp]: "lower [] = []"
  and lower_Cons [simp]: "lower (c # s) = lower_char c # lower s"
  and lower_append [simp]: "lower (s @ t) = lower s @ lower t"
  by (simp_all add: lower_def)

lemma length_lower [simp]: "length (lower s) = length s"
  by (simp add: lower_def)

section \<open>Lemmas on decimal rendering\<close>


lemma digit_val_digit_char [simp]: "d < 10 \<Longrightarrow> digit_val (digit_char d) = d"
  by (simp add: digit_val_def digit_char_def of_char_of)

lemma parse_dec_snoc [simp]: "parse_dec (s @ [c]) = 10 * parse_dec s + digit_val c"
  by (simp add: parse_dec_def)

lemma parse_dec_dec_string [simp]: "parse_dec (dec_string n) = n"
proof (induction n rule: dec_string.induct)
  case (1 n)
  show ?case
  proof (cases "n < 10")
    case True
    then show ?thesis
      by (subst dec_string.simps) (simp add: parse_dec_def)
  next
    case False
    with "1.IH" have "parse_dec (dec_string (n div 10)) = n div 10" by simp
    with False show ?thesis
      by (subst dec_string.simps) simp
  qed
qed

lemma dec_string_inj [simp]: "dec_string m = dec_string n \<longleftrightarrow> m = n"
  by (metis parse_dec_dec_string)

section \<open>Lists and ranges\<close>

lemma py_range_Cons:
  "0 < step \<Longrightarrow> start < stop \<Longrightarrow>
     py_range start stop step = start # py_range (start + step) stop step"
  by (simp add: py_range.simps)

lemma py_range_Nil: "\<not> start < stop \<Longrightarrow> py_range start stop step = []"
  by (simp add: py_range.simps)

lemma take_drop_concat_step:
  "take k (drop i xs) @ drop (i + k) xs = drop i xs"
  by (metis add.commute append_take_drop_id drop_drop)

lemma length_py_range:
  "0 < step \<Longrightarrow> length (py_range start stop step) = (stop - start + step - 1) div step"
proof (induction start stop step rule: py_range.induct)
  case (1 start stop step)
  show ?case
  proof (cases "start < stop")
    case True
    have "(stop - start + step - 1) div step = Suc ((stop - start - 1) div step)"
      using True "1.prems" le_div_geq [of step "stop - start + step - 1"] by simp
    moreover have "(stop - (start + step) + step - 1) div step = (stop - start - 1) div step"
    proof (cases "start + step \<le> stop")
      case True
      then show ?thesis by (simp add: algebra_simps)
    next
      case False
      then have "stop - start - 1 < step" "step - 1 < step"
        using "1.prems" by linarith+
      with False show ?thesis by (simp add: div_less)
    qed
    ultimately show ?thesis
      using True "1.IH" "1.prems" by (simp add: py_range_Cons)
  next
    case False
    then show ?thesis using "1.prems" by (simp add: py_range_Nil div_less)
  qed
qed

end
