(* ===== verification/Gmail_Api.thy ===== *)
theory Gmail_Api
  imports Prelude
begin

text \<open>
  The environment the script runs against, modelled from the spec (sections 3, 6
  and 7): the local files \<open>token.json\<close> and \<open>credentials.json\<close>, the OAuth
  endpoints, and the Gmail REST resources the script calls
  (\<open>users.labels.list\<close>, \<open>users.labels.create\<close>, \<open>users.messages.list\<close>,
  \<open>users.messages.batchModify\<close>). None of this is code of the repository; it is
  the world that the functions of \<open>src/label_rejections.py\<close> pass from call to
  call. Every request is appended to \<open>calls\<close>, every console line to \<open>out\<close>,
  and a request fails with an HTTP error when the credential lacks the Gmail
  modify scope or when its position in the call sequence is listed in
  \<open>faults\<close> (transient provider failures, used to model the error paths).
\<close>

section \<open>Credentials\<close>

text \<open>\<open>google.oauth2.credentials.Credentials\<close>, as far as the script uses it.\<close>

record credential =
  token :: "string option"
  expired :: bool
  refresh_token :: "string option"
  granted :: "scope list"

definition gmail_modify :: scope where
  "gmail_modify = ''https://www.googleapis.com/auth/gmail.modify''"

text \<open>The content of \<open>token.json\<close>: absent, unreadable as an authorized-user
  file (\<open>from_authorized_user_file\<close> raises \<open>ValueError\<close>), or a stored credential.\<close>

datatype token_json = Absent | Malformed | Stored credential

section \<open>Gmail resources\<close>

record label =
  lname :: string
  lid :: label_id
  labelListVisibility :: string
  messageListVisibility :: string

record label_body =
  body_name :: string
  body_labelListVisibility :: string
  body_messageListVisibility :: string

record message_ref =
  mid :: msg_id
  threadId :: string

datatype page_token = PageToken nat

record list_request =
  req_q :: string
  req_pageToken :: "page_token option"

record labels_response =
  resp_labels :: "label list option"

record messages_response =
  resp_messages :: "message_ref list option"
  nextPageToken :: "page_token option"

record batch_body =
  ids :: "msg_id list"
  addLabelIds :: "label_id list"
  removeLabelIds :: "label_id list"

datatype api_call =
    LabelsList
  | LabelsCreate label_body
  | MessagesList list_request
  | BatchModify batch_body

text \<open>The exceptions that can end a run: the auth library's \<open>RefreshError\<close>,
  a failed interactive flow, a missing client-secrets file, an unreadable token
  file, and \<open>googleapiclient.errors.HttpError\<close> with its status and request.\<close>

datatype error =
    RefreshError
  | FlowError
  | SecretsFileMissing
  | TokenFileError
  | HttpError nat api_call

text \<open>Console lines of the script (the \<open>print\<close> calls), as structured events.\<close>

datatype event =
    FoundLabel string label_id
  | CreatedLabel string label_id
  | FoundMessages nat
  | NoMessagesToLabel
  | LabeledBatch nat
  | DoneMessage

section \<open>The world\<close>

record world =
  token_file :: token_json
  secrets_file :: bool
  consent :: "(string \<times> string option) option"
  refresh_grant :: "string option"
  labels :: "label list"
  next_label :: nat
  mailbox :: "msg_id \<Rightarrow> label_id set option"
  index :: "string \<Rightarrow> message_ref list"
  page_size :: nat
  faults :: "nat set"
  calls :: "api_call list"
  out :: "event list"

definition print_event :: "event \<Rightarrow> world \<Rightarrow> world" where
  "print_event e w = w\<lparr>out := out w @ [e]\<rparr>"

section \<open>Requests\<close>

definition authorized :: "credential \<Rightarrow> bool" where
  "authorized c \<longleftrightarrow> gmail_modify \<in> set (granted c)"

text \<open>Issuing a request: it is logged, then refused (403) without the scope,
  or failed (503) when its position is a fault of the world.\<close>

definition request_error :: "credential \<Rightarrow> world \<Rightarrow> nat option" where
  "request_error c w =
     (if \<not> authorized c then Some 403
      else if length (calls w) \<in> faults w then Some 503 else None)"

definition log_call :: "api_call \<Rightarrow> world \<Rightarrow> world" where
  "log_call r w = w\<lparr>calls := calls w @ [r]\<rparr>"

definition label_id_of :: "nat \<Rightarrow> label_id" where
  "label_id_of n = ''Label_'' @ dec_string n"

definition name_conflict :: "string \<Rightarrow> label list \<Rightarrow> bool" where
  "name_conflict n ls \<longleftrightarrow> (\<exists>l\<in>set ls. lower (lname l) = lower n)"

definition labels_list :: "credential \<Rightarrow> world \<Rightarrow> (error + labels_response) \<times> world" where
  "labels_list c w =
     (let w' = log_call LabelsList w in
      case request_error c w of
        Some code \<Rightarrow> (Inl (HttpError code LabelsList), w')
      | None \<Rightarrow>
          (Inr \<lparr>resp_labels = (if labels w = [] then None else Some (labels w))\<rparr>, w'))"

definition labels_create ::
  "credential \<Rightarrow> label_body \<Rightarrow> world \<Rightarrow> (error + label) \<times> world" where
  "labels_create c b w =
     (let r = LabelsCreate b; w' = log_call r w in
      case request_error c w of
        Some code \<Rightarrow> (Inl (HttpError code r), w')
      | None \<Rightarrow>
          if name_conflict (body_name b) (labels w) then (Inl (HttpError 409 r), w')
          else
            let l = \<lparr>lname = body_name b, lid = label_id_of (next_label w),
                     labelListVisibility = body_labelListVisibility b,
                     messageListVisibility = body_messageListVisibility b\<rparr>
            in (Inr l, w'\<lparr>labels := labels w @ [l], next_label := Suc (next_label w)\<rparr>))"

definition page_offset :: "page_token option \<Rightarrow> nat" where
  "page_offset t = (case t of None \<Rightarrow> 0 | Some (PageToken n) \<Rightarrow> n)"

definition messages_list ::
  "credential \<Rightarrow> list_request \<Rightarrow> world \<Rightarrow> (error + messages_response) \<times> world" where
  "messages_list c rq w =
     (let r = MessagesList rq; w' = log_call r w in
      case request_error c w of
        Some code \<Rightarrow> (Inl (HttpError code r), w')
      | None \<Rightarrow>
          let hits = index w (req_q rq); off = page_offset (req_pageToken rq);
              pg = take (page_size w) (drop off hits);
              nxt = (if off + page_size w < length hits
                     then Some (PageToken (off + page_size w)) else None)
          in (Inr \<lparr>resp_messages = (if pg = [] then None else Some pg),
                   nextPageToken = nxt\<rparr>, w'))"

definition batch_limit :: nat where
  "batch_limit = 1000"

definition apply_labels ::
  "batch_body \<Rightarrow> (msg_id \<Rightarrow> label_id set option) \<Rightarrow> (msg_id \<Rightarrow> label_id set option)" where
  "apply_labels b mb =
     (\<lambda>m. if m \<in> set (ids b)
          then map_option (\<lambda>ls. (ls \<union> set (addLabelIds b)) - set (removeLabelIds b)) (mb m)
          else mb m)"

definition batch_modify ::
  "credential \<Rightarrow> batch_body \<Rightarrow> world \<Rightarrow> (error + unit) \<times> world" where
  "batch_modify c b w =
     (let r = BatchModify b; w' = log_call r w in
      case request_error c w of
        Some code \<Rightarrow> (Inl (HttpError code r), w')
      | None \<Rightarrow>
          if batch_limit < length (ids b)
             \<or> (\<exists>a\<in>set (addLabelIds b). a \<notin> lid ` set (labels w))
          then (Inl (HttpError 400 r), w')
          else (Inr (), w'\<lparr>mailbox := apply_labels b (mailbox w)\<rparr>))"

section \<open>Fixtures\<close>

text \<open>Concrete values for the witnesses: a credential with the modify scope,
  Gmail's system label \<open>INBOX\<close>, and a world with a readable token file, a
  client-secrets file, and an empty search index.\<close>

definition modify_cred :: credential where
  "modify_cred = \<lparr>token = Some ''ya29.a0'', expired = False, refresh_token = Some ''1//0g'',
                  granted = [gmail_modify]\<rparr>"

definition inbox_label :: label where
  "inbox_label = \<lparr>lname = ''INBOX'', lid = ''INBOX'', labelListVisibility = ''labelShow'',
                  messageListVisibility = ''hide''\<rparr>"

definition rejections_label :: label where
  "rejections_label = \<lparr>lname = ''Rejections'', lid = ''Label_7'',
                       labelListVisibility = ''labelShow'', messageListVisibility = ''show''\<rparr>"

definition base_world :: world where
  "base_world =
     \<lparr>token_file = Stored modify_cred, secrets_file = True,
      consent = Some (''ya29.new'', Some ''1//new''), refresh_grant = Some ''ya29.refreshed'',
      labels = [inbox_label], next_label = 1, mailbox = Map.empty, index = (\<lambda>_. []),
      page_size = 100, faults = {}, calls = [], out = []\<rparr>"

definition rej_world :: world where
  "rej_world =
     base_world\<lparr>labels := [inbox_label, rejections_label], next_label := 8,
                mailbox := [''m1'' \<mapsto> {''INBOX''}, ''m2'' \<mapsto> {''INBOX''}],
                index := (\<lambda>_. [\<lparr>mid = ''m1'', threadId = ''t1''\<rparr>,
                               \<lparr>mid = ''m2'', threadId = ''t2''\<rparr>])\<rparr>"

section \<open>Lemmas on the requests\<close>

declare gmail_modify_def [model_simps] print_event_def [model_simps] authorized_def [model_simps]
  request_error_def [model_simps] log_call_def [model_simps] label_id_of_def [model_simps]
  name_conflict_def [model_simps] labels_list_def [model_simps] labels_create_def [model_simps]
  page_offset_def [model_simps] messages_list_def [model_simps] batch_limit_def [model_simps]
  apply_labels_def [model_simps] batch_modify_def [model_simps] modify_cred_def [model_simps]
  inbox_label_def [model_simps] rejections_label_def [model_simps] base_world_def [model_simps]
  rej_world_def [model_simps]

lemma label_id_of_inj [simp]: "label_id_of m = label_id_of n \<longleftrightarrow> m = n"
  by (simp add: label_id_of_def)

lemma label_id_of_parts [simp]:
  "take 6 (label_id_of n) = ''Label_''" "drop 6 (label_id_of n) = dec_string n"
  by (simp_all add: label_id_of_def)

lemma labels_list_world [frame_simps]: "snd (labels_list c w) = log_call LabelsList w"
  by (simp add: labels_list_def Let_def split: option.split)

lemma messages_list_world [frame_simps]:
  "snd (messages_list c rq w) = log_call (MessagesList rq) w"
  by (simp add: messages_list_def Let_def split: option.split)

lemma log_call_fields [simp]:
  "labels (log_call r w) = labels w" "next_label (log_call r w) = next_label w"
  "mailbox (log_call r w) = mailbox w" "token_file (log_call r w) = token_file w"
  "out (log_call r w) = out w" "calls (log_call r w) = calls w @ [r]"
  "index (log_call r w) = index w" "page_size (log_call r w) = page_size w"
  "faults (log_call r w) = faults w" "secrets_file (log_call r w) = secrets_file w"
  "consent (log_call r w) = consent w" "refresh_grant (log_call r w) = refresh_grant w"
  by (simp_all add: log_call_def)

lemma print_event_fields [simp]:
  "labels (print_event e w) = labels w" "next_label (print_event e w) = next_label w"
  "mailbox (print_event e w) = mailbox w" "token_file (print_event e w) = token_file w"
  "out (print_event e w) = out w @ [e]" "calls (print_event e w) = calls w"
  "index (print_event e w) = index w" "page_size (print_event e w) = page_size w"
  "faults (print_event e w) = faults w"
  by (simp_all add: print_event_def)

lemma labels_create_cases:
  assumes "labels_create c b w = (r, w')"
  obtains (refused) code where "r = Inl (HttpError code (LabelsCreate b))"
      and "w' = log_call (LabelsCreate b) w"
      and "request_error c w \<noteq> None \<or> name_conflict (body_name b) (labels w)"
  | (created) l where "r = Inr l" and "request_error c w = None"
      and "\<not> name_conflict (body_name b) (labels w)"
      and "lname l = body_name b" and "lid l = label_id_of (next_label w)"
      and "labelListVisibility l = body_labelListVisibility b"
      and "messageListVisibility l = body_messageListVisibility b"
      and "w' = (log_call (LabelsCreate b) w)\<lparr>labels := labels w @ [l],
                                              next_label := Suc (next_label w)\<rparr>"
proof (cases "request_error c w")
  case (Some code)
  with assms show ?thesis
    by (intro refused [of code]) (simp_all add: labels_create_def Let_def)
next
  case None
  show ?thesis
  proof (cases "name_conflict (body_name b) (labels w)")
    case True
    with None assms show ?thesis
      by (intro refused [of 409]) (simp_all add: labels_create_def Let_def)
  next
    case False
    with None assms show ?thesis
      by (intro created) (auto simp: labels_create_def Let_def)
  qed
qed

lemma request_error_None_iff:
  "request_error c w = None \<longleftrightarrow> authorized c \<and> length (calls w) \<notin> faults w"
  by (simp add: request_error_def)

lemma request_error_fault:
  "authorized c \<Longrightarrow> length (calls w) \<in> faults w \<Longrightarrow> request_error c w = Some 503"
  by (simp add: request_error_def)

lemma batch_modify_ok:
  assumes "request_error c w = None" and "length (ids b) \<le> batch_limit"
      and "set (addLabelIds b) \<subseteq> lid ` set (labels w)"
  shows "batch_modify c b w =
           (Inr (), (log_call (BatchModify b) w)\<lparr>mailbox := apply_labels b (mailbox w)\<rparr>)"
  using assms by (auto simp: batch_modify_def Let_def not_less)

lemma batch_modify_refused:
  "request_error c w = Some code \<Longrightarrow>
     batch_modify c b w = (Inl (HttpError code (BatchModify b)), log_call (BatchModify b) w)"
  by (simp add: batch_modify_def Let_def)

lemma batch_modify_calls [frame_simps]:
  "calls (snd (batch_modify c b w)) = calls w @ [BatchModify b]"
  and batch_modify_labels [frame_simps]: "labels (snd (batch_modify c b w)) = labels w"
  by (simp_all add: batch_modify_def Let_def split: option.split)

lemma batch_modify_frame [frame_simps]:
  assumes "batch_modify c b w = (r, w')"
  shows "labels w' = labels w \<and> index w' = index w \<and> page_size w' = page_size w \<and>
         faults w' = faults w \<and> token_file w' = token_file w \<and> next_label w' = next_label w \<and>
         out w' = out w"
  using assms by (auto simp: batch_modify_def Let_def split: option.splits if_splits)

lemma batch_modify_Inr_mailbox:
  "batch_modify c b w = (Inr u, w') \<Longrightarrow> mailbox w' = apply_labels b (mailbox w)"
  by (auto simp: batch_modify_def Let_def split: option.splits if_splits)

end
