(* ===== verification/Auth.thy ===== *)
theory Auth
  imports Gmail_Api
begin

text \<open>
  The authenticator, \<open>get_gmail_service\<close> (src/label_rejections.py, lines
  14--36). It reads \<open>token.json\<close> when the file exists
  (\<open>load_token\<close>, lines 19--20). The file holds the JSON \<open>creds.to_json()\<close>
  wrote, which omits the fields that are \<open>None\<close>; the loader
  \<open>Credentials.from_authorized_user_file\<close> raises \<open>ValueError\<close> when the
  \<open>refresh_token\<close> field is missing, so a stored credential without a refresh
  token fails to load, like an unreadable file (\<open>TokenFileError\<close>). A valid credential is used as it is; an
  invalid one is refreshed when it is expired and its refresh token is
  truthy, that is present and non-empty (\<open>refresh\<close>, line 25), otherwise the interactive flow runs
  (\<open>run_flow\<close>, lines 27--30); a refreshed or new credential is written back
  to \<open>token.json\<close> (lines 32--33). The service handle \<open>build()\<close> returns
  (line 35) is the credential it wraps: every request of \<open>Gmail_Api\<close> is
  authorised by it.

  \<open>cred_valid\<close>, \<open>refresh\<close> and \<open>run_flow\<close> model the google-auth library
  the script calls, from its documented behaviour: a credential is valid when
  it has an access token that has not expired (expiry against the clock is
  the world's \<open>expired\<close> flag); a refresh obtains a new access
  token from the token endpoint (\<open>refresh_grant\<close>) or raises
  \<open>RefreshError\<close>; the flow needs \<open>credentials.json\<close> and the user's consent,
  and yields a credential for the requested scopes.
\<close>

section \<open>Definitions\<close>

definition SCOPES :: "scope list" where
  "SCOPES = [gmail_modify]"

definition cred_valid :: "credential \<Rightarrow> bool" where
  "cred_valid c \<longleftrightarrow> token c \<noteq> None \<and> \<not> expired c"

definition load_token :: "world \<Rightarrow> error + credential option" where
  "load_token w =
     (case token_file w of
        Absent \<Rightarrow> Inr None
      | Malformed \<Rightarrow> Inl TokenFileError
      | Stored c \<Rightarrow> if refresh_token c = None then Inl TokenFileError else Inr (Some c))"

definition refresh :: "credential \<Rightarrow> world \<Rightarrow> error + credential" where
  "refresh c w =
     (case refresh_grant w of
        None \<Rightarrow> Inl RefreshError
      | Some t \<Rightarrow> Inr (c\<lparr>token := Some t, expired := False\<rparr>))"

definition run_flow :: "scope list \<Rightarrow> world \<Rightarrow> error + credential" where
  "run_flow scopes w =
     (if \<not> secrets_file w then Inl SecretsFileMissing
      else case consent w of
        None \<Rightarrow> Inl FlowError
      | Some (t, rt) \<Rightarrow>
          Inr \<lparr>token = Some t, expired = False, refresh_token = rt, granted = scopes\<rparr>)"

definition can_refresh :: "credential option \<Rightarrow> bool" where
  "can_refresh creds =
     (case creds of
        None \<Rightarrow> False
      | Some c \<Rightarrow> expired c \<and> (case refresh_token c of None \<Rightarrow> False | Some t \<Rightarrow> t \<noteq> []))"

definition renew_credentials :: "credential option \<Rightarrow> world \<Rightarrow> (error + credential) \<times> world" where
  "renew_credentials creds w =
     (let r = (case creds of
                 Some c \<Rightarrow> if can_refresh creds then refresh c w else run_flow SCOPES w
               | None \<Rightarrow> run_flow SCOPES w)
      in case r of
           Inl e \<Rightarrow> (Inl e, w)
         | Inr c' \<Rightarrow> (Inr c', w\<lparr>token_file := Stored c'\<rparr>))"

definition get_gmail_service :: "world \<Rightarrow> (error + credential) \<times> world" where
  "get_gmail_service w =
     (case load_token w of
        Inl e \<Rightarrow> (Inl e, w)
      | Inr creds \<Rightarrow>
          (case creds of
             Some c \<Rightarrow> if cred_valid c then (Inr c, w) else renew_credentials creds w
           | None \<Rightarrow> renew_credentials creds w))"

text \<open>Fixtures: the credential the flow yields from \<open>base_world\<close>'s consent,
  and a stored credential granted only the read-only scope.\<close>

definition flow_cred :: credential where
  "flow_cred = \<lparr>token = Some ''ya29.new'', expired = False, refresh_token = Some ''1//new'',
                granted = SCOPES\<rparr>"

definition readonly_cred :: credential where
  "readonly_cred = modify_cred\<lparr>granted := [''https://www.googleapis.com/auth/gmail.readonly'']\<rparr>"

declare SCOPES_def [model_simps] cred_valid_def [model_simps] load_token_def [model_simps]
  refresh_def [model_simps] run_flow_def [model_simps] can_refresh_def [model_simps]
  renew_credentials_def [model_simps] get_gmail_service_def [model_simps]
  flow_cred_def [model_simps] readonly_cred_def [model_simps]

section \<open>The branches of get_gmail_service\<close>

lemma get_gmail_service_stored_valid:
  "token_file w = Stored c \<Longrightarrow> refresh_token c \<noteq> None \<Longrightarrow> cred_valid c \<Longrightarrow>
     get_gmail_service w = (Inr c, w)"
  by (simp add: get_gmail_service_def load_token_def)

lemma get_gmail_service_renew:
  "token_file w = Absent \<Longrightarrow> get_gmail_service w = renew_credentials None w"
  "token_file w = Stored c \<Longrightarrow> refresh_token c \<noteq> None \<Longrightarrow> \<not> cred_valid c \<Longrightarrow>
     get_gmail_service w = renew_credentials (Some c) w"
  "token_file w = Malformed \<Longrightarrow> get_gmail_service w = (Inl TokenFileError, w)"
  by (auto simp: get_gmail_service_def load_token_def)

lemma get_gmail_service_no_refresh_token:
  "token_file w = Stored c \<Longrightarrow> refresh_token c = None \<Longrightarrow> get_gmail_service w = (Inl TokenFileError, w)"
  by (simp add: get_gmail_service_def load_token_def)

lemma renew_credentials_result:
  "renew_credentials creds w = (r, w') \<Longrightarrow>
     (\<exists>e. r = Inl e \<and> w' = w) \<or> (\<exists>c. r = Inr c \<and> cred_valid c \<and> w' = w\<lparr>token_file := Stored c\<rparr>)"
  by (auto simp: renew_credentials_def refresh_def run_flow_def cred_valid_def Let_def
      split: option.splits sum.splits if_splits)

lemma get_gmail_service_result:
  assumes "get_gmail_service w = (r, w')"
  shows "(\<exists>e. r = Inl e \<and> w' = w) \<or> (\<exists>c. r = Inr c \<and> cred_valid c \<and> w' = w\<lparr>token_file := Stored c\<rparr>)"
proof (cases "token_file w")
  case Absent
  with assms have "renew_credentials None w = (r, w')" by (simp add: get_gmail_service_renew)
  then show ?thesis by (rule renew_credentials_result)
next
  case Malformed
  with assms show ?thesis by (auto simp: get_gmail_service_renew)
next
  case (Stored c)
  show ?thesis
  proof (cases "refresh_token c = None")
    case True
    with Stored assms show ?thesis by (auto simp: get_gmail_service_no_refresh_token)
  next
    case rt: False
    show ?thesis
    proof (cases "cred_valid c")
      case True
      with Stored rt assms have "r = Inr c" and "w' = w"
        by (simp_all add: get_gmail_service_stored_valid)
      with True Stored show ?thesis by simp
    next
      case False
      with Stored rt assms have "renew_credentials (Some c) w = (r, w')"
        by (simp add: get_gmail_service_renew)
      then show ?thesis by (rule renew_credentials_result)
    qed
  qed
qed

lemma get_gmail_service_frame [frame_simps]:
  assumes "get_gmail_service w = (r, w')"
  shows "labels w' = labels w \<and> mailbox w' = mailbox w \<and> index w' = index w \<and>
         page_size w' = page_size w \<and> faults w' = faults w \<and> calls w' = calls w \<and>
         next_label w' = next_label w \<and> out w' = out w"
  using get_gmail_service_result [OF assms] by auto

section \<open>Properties of get_gmail_service\<close>

lemma get_gmail_service_Inl:
  "get_gmail_service w = (Inl e, w') \<Longrightarrow>
     e \<in> {RefreshError, FlowError, SecretsFileMissing, TokenFileError} \<and> w' = w"
  by (auto simp: get_gmail_service_def load_token_def renew_credentials_def refresh_def run_flow_def Let_def
      split: token_json.splits option.splits sum.splits if_splits)

text \<open>C24: a valid credential in \<open>token.json\<close> is used as it is, with no
  refresh, no interactive flow and no rewrite, provided the file holds a
  refresh token; without one the loader raises before validity is checked.\<close>

theorem get_gmail_service_reuses:
  assumes "token_file w = Stored c" and "cred_valid c"
  shows "get_gmail_service w =
           (if refresh_token c = None then (Inl TokenFileError, w) else (Inr c, w))"
  using assms by (simp add: get_gmail_service_stored_valid get_gmail_service_no_refresh_token)

theorem get_gmail_service_reuses_witness:
  "token_file base_world = Stored modify_cred \<and> cred_valid modify_cred \<and>
   get_gmail_service base_world = (Inr modify_cred, base_world)"
  using get_gmail_service_reuses [of base_world modify_cred]
  by (simp add: base_world_def modify_cred_def cred_valid_def)

text \<open>C8: a successful sign-in returns a valid credential and leaves it in
  \<open>token.json\<close>, changing nothing else.\<close>

theorem get_gmail_service_persists:
  assumes "get_gmail_service w = (Inr c, w')"
  shows "cred_valid c \<and> w' = w\<lparr>token_file := Stored c\<rparr>"
  using get_gmail_service_result [OF assms] by auto

theorem get_gmail_service_persists_witness:
  "cred_valid flow_cred \<and> snd (get_gmail_service (base_world\<lparr>token_file := Absent\<rparr>)) = (base_world\<lparr>token_file := Absent\<rparr>)\<lparr>token_file := Stored flow_cred\<rparr>"
  using get_gmail_service_persists [of "(base_world\<lparr>token_file := Absent\<rparr>)" flow_cred "snd (get_gmail_service (base_world\<lparr>token_file := Absent\<rparr>))"]
  by (simp add: model_simps)

text \<open>C25: the next run reads back what a successful sign-in saved: it
  reuses the credential when the credential carries a refresh token, and
  fails to load \<open>token.json\<close> (the loader's \<open>ValueError\<close>) when the
  interactive flow returned none, since \<open>to_json\<close> leaves the field out.\<close>

theorem get_gmail_service_reload:
  assumes "get_gmail_service w = (Inr c, w')"
  shows "get_gmail_service w' =
           (if refresh_token c = None then (Inl TokenFileError, w') else (Inr c, w'))"
proof -
  from get_gmail_service_result [OF assms] have "token_file w' = Stored c" and "cred_valid c"
    by auto
  then show ?thesis by (simp add: get_gmail_service_stored_valid get_gmail_service_no_refresh_token)
qed

theorem get_gmail_service_reload_witness:
  "get_gmail_service (base_world\<lparr>token_file := Absent, consent := Some (''ya29.new'', None)\<rparr>) =
     (Inr (flow_cred\<lparr>refresh_token := None\<rparr>),
      base_world\<lparr>token_file := Stored (flow_cred\<lparr>refresh_token := None\<rparr>), consent := Some (''ya29.new'', None)\<rparr>) \<and>
   get_gmail_service (base_world\<lparr>token_file := Stored (flow_cred\<lparr>refresh_token := None\<rparr>),
                                  consent := Some (''ya29.new'', None)\<rparr>) =
     (Inl TokenFileError,
      base_world\<lparr>token_file := Stored (flow_cred\<lparr>refresh_token := None\<rparr>), consent := Some (''ya29.new'', None)\<rparr>)"
  using get_gmail_service_reload [of "base_world\<lparr>token_file := Absent, consent := Some (''ya29.new'', None)\<rparr>"
      "flow_cred\<lparr>refresh_token := None\<rparr>"
      "base_world\<lparr>token_file := Stored (flow_cred\<lparr>refresh_token := None\<rparr>), consent := Some (''ya29.new'', None)\<rparr>"]
  by (simp add: model_simps)

text \<open>C26: an expired credential whose refresh token is truthy (present and
  non-empty) is refreshed, and a failed refresh is fatal: the script raises
  \<open>RefreshError\<close> and does not fall back to the interactive flow. An empty
  refresh token is falsy in Python, so that credential goes to the flow.\<close>

theorem get_gmail_service_refresh:
  assumes "token_file w = Stored c" and "\<not> cred_valid c"
      and "expired c" and "refresh_token c = Some rt"
  shows "get_gmail_service w =
           (if rt = [] then
              (case run_flow SCOPES w of
                 Inl e \<Rightarrow> (Inl e, w)
               | Inr c' \<Rightarrow> (Inr c', w\<lparr>token_file := Stored c'\<rparr>))
            else case refresh_grant w of
              None \<Rightarrow> (Inl RefreshError, w)
            | Some t \<Rightarrow> (Inr (c\<lparr>token := Some t, expired := False\<rparr>),
                         w\<lparr>token_file := Stored (c\<lparr>token := Some t, expired := False\<rparr>)\<rparr>))"
proof -
  have "get_gmail_service w = renew_credentials (Some c) w"
    using assms(1,2,4) by (simp add: get_gmail_service_renew)
  with assms(3,4) show ?thesis
    by (simp add: renew_credentials_def can_refresh_def refresh_def split: option.split)
qed

theorem get_gmail_service_refresh_witness:
  "get_gmail_service (base_world\<lparr>token_file := Stored (modify_cred\<lparr>expired := True\<rparr>)\<rparr>) =
     (Inr (modify_cred\<lparr>token := Some ''ya29.refreshed''\<rparr>),
      (base_world\<lparr>token_file := Stored (modify_cred\<lparr>expired := True\<rparr>)\<rparr>)\<lparr>token_file := Stored (modify_cred\<lparr>token := Some ''ya29.refreshed''\<rparr>)\<rparr>)"
  using get_gmail_service_refresh [of "(base_world\<lparr>token_file := Stored (modify_cred\<lparr>expired := True\<rparr>)\<rparr>)"
      "modify_cred\<lparr>expired := True\<rparr>" "''1//0g''"]
  by (simp add: model_simps)

text \<open>C27: a failed sign-in (unreadable token file, failed refresh, missing
  client secrets or refused consent) writes nothing.\<close>

theorem get_gmail_service_error_no_write:
  assumes "get_gmail_service w = (Inl e, w')"
  shows "w' = w"
  using get_gmail_service_result [OF assms] by auto

theorem get_gmail_service_error_no_write_witness:
  "snd (get_gmail_service (base_world\<lparr>token_file := Malformed\<rparr>)) = base_world\<lparr>token_file := Malformed\<rparr>"
  using get_gmail_service_error_no_write [of "base_world\<lparr>token_file := Malformed\<rparr>" TokenFileError
      "snd (get_gmail_service (base_world\<lparr>token_file := Malformed\<rparr>))"]
  by (simp add: model_simps)

end
