(* ===== verification/Labels.thy ===== *)
theory Labels
  imports Gmail_Api
begin

text \<open>
  The label resolver, \<open>get_or_create_label\<close> (src/label_rejections.py, lines
  39--61): one \<open>labels.list\<close> request, a case-insensitive linear scan that
  returns at the first match (\<open>find_label\<close>, the \<open>for\<close> loop with its early
  \<open>return\<close>), and otherwise one \<open>labels.create\<close> request with the body of lines
  50--54. The lemmas give every branch of the function, the first-match
  behaviour of the scan, its agreement with the library's \<open>List.find\<close>,
  and idempotence: a second run returns the same identifier and creates
  nothing.
\<close>

section \<open>Definitions\<close>

definition name_matches :: "string \<Rightarrow> label \<Rightarrow> bool" where
  "name_matches n l \<longleftrightarrow> lower (lname l) = lower n"

fun find_label :: "string \<Rightarrow> label list \<Rightarrow> label option" where
  "find_label n [] = None"
| "find_label n (l # ls) = (if name_matches n l then Some l else find_label n ls)"

definition get_labels :: "labels_response \<Rightarrow> label list" where
  "get_labels r = (case resp_labels r of None \<Rightarrow> [] | Some ls \<Rightarrow> ls)"

definition new_label_body :: "string \<Rightarrow> label_body" where
  "new_label_body n =
     \<lparr>body_name = n, body_labelListVisibility = ''labelShow'',
      body_messageListVisibility = ''show''\<rparr>"

definition get_or_create_label ::
  "credential \<Rightarrow> string \<Rightarrow> world \<Rightarrow> (error + label_id) \<times> world" where
  "get_or_create_label svc n w =
     (case labels_list svc w of
        (Inl e, w1) \<Rightarrow> (Inl e, w1)
      | (Inr results, w1) \<Rightarrow>
          (case find_label n (get_labels results) of
             Some l \<Rightarrow> (Inr (lid l), print_event (FoundLabel n (lid l)) w1)
           | None \<Rightarrow>
               (case labels_create svc (new_label_body n) w1 of
                  (Inl e, w2) \<Rightarrow> (Inl e, w2)
                | (Inr created, w2) \<Rightarrow>
                    (Inr (lid created), print_event (CreatedLabel n (lid created)) w2))))"

section \<open>The scan\<close>

declare name_matches_def [model_simps] get_labels_def [model_simps] new_label_body_def [model_simps]
  get_or_create_label_def [model_simps]

lemma find_label_eq_find: "find_label n ls = List.find (name_matches n) ls"
  by (induction ls) auto

lemma find_label_Some:
  "find_label n ls = Some l \<Longrightarrow> l \<in> set ls \<and> name_matches n l"
  by (induction ls) (auto split: if_splits)

lemma find_label_None: "find_label n ls = None \<longleftrightarrow> \<not> name_conflict n ls"
  by (induction ls) (auto simp: name_conflict_def name_matches_def)

lemma find_label_first:
  "find_label n ls = Some l \<Longrightarrow>
     \<exists>pre post. ls = pre @ l # post \<and> (\<forall>l'\<in>set pre. \<not> name_matches n l')"
proof (induction ls)
  case Nil
  then show ?case by simp
next
  case (Cons x xs)
  show ?case
  proof (cases "name_matches n x")
    case True
    with Cons.prems have "x # xs = [] @ l # xs \<and> (\<forall>l'\<in>set []. \<not> name_matches n l')"
      by simp
    then show ?thesis by blast
  next
    case False
    with Cons.prems obtain pre post where
      "xs = pre @ l # post" and "\<forall>l'\<in>set pre. \<not> name_matches n l'"
      using Cons.IH by auto
    with False have "x # xs = (x # pre) @ l # post \<and> (\<forall>l'\<in>set (x # pre). \<not> name_matches n l')"
      by simp
    then show ?thesis by blast
  qed
qed

lemma find_label_append_None [simp]:
  "find_label n ls = None \<Longrightarrow> find_label n (ls @ ls') = find_label n ls'"
  by (induction ls) (auto split: if_splits)

lemma get_labels_of_world [simp]:
  "get_labels \<lparr>resp_labels = (if ls = [] then None else Some ls)\<rparr> = ls"
  by (simp add: get_labels_def)

lemma name_matches_new_label [simp]: "name_matches n \<lparr>lname = n, lid = i, labelListVisibility = a,
    messageListVisibility = b\<rparr>"
  by (simp add: name_matches_def)

section \<open>The branches of get_or_create_label\<close>

lemma get_or_create_label_cases:
  assumes "get_or_create_label svc n w = (r, w')"
  obtains (list_failed) code where "request_error svc w = Some code"
      and "r = Inl (HttpError code LabelsList)" and "w' = log_call LabelsList w"
  | (found) l where "request_error svc w = None" and "find_label n (labels w) = Some l"
      and "r = Inr (lid l)"
      and "w' = print_event (FoundLabel n (lid l)) (log_call LabelsList w)"
  | (create_failed) code where "request_error svc w = None"
      and "find_label n (labels w) = None"
      and "request_error svc (log_call LabelsList w) \<noteq> None"
      and "r = Inl (HttpError code (LabelsCreate (new_label_body n)))"
      and "w' = log_call (LabelsCreate (new_label_body n)) (log_call LabelsList w)"
  | (created) l where "request_error svc w = None" and "find_label n (labels w) = None"
      and "r = Inr (lid l)" and "l = \<lparr>lname = n, lid = label_id_of (next_label w),
             labelListVisibility = ''labelShow'', messageListVisibility = ''show''\<rparr>"
      and "w' = print_event (CreatedLabel n (lid l))
                 ((log_call (LabelsCreate (new_label_body n)) (log_call LabelsList w))
                    \<lparr>labels := labels w @ [l], next_label := Suc (next_label w)\<rparr>)"
proof (cases "request_error svc w")
  case (Some code)
  with assms show ?thesis
    by (intro list_failed [of code])
       (simp_all add: get_or_create_label_def labels_list_def Let_def)
next
  case None
  show ?thesis
  proof (cases "find_label n (labels w)")
    case (Some l)
    with None assms show ?thesis
      by (intro found [of l]) (simp_all add: get_or_create_label_def labels_list_def Let_def)
  next
    case not_found: None
    obtain r2 w2 where create: "labels_create svc (new_label_body n) (log_call LabelsList w) = (r2, w2)"
      by fastforce
    have ev: "get_or_create_label svc n w =
        (case r2 of Inl e \<Rightarrow> (Inl e, w2)
                  | Inr created \<Rightarrow> (Inr (lid created), print_event (CreatedLabel n (lid created)) w2))"
      using None not_found create
      by (simp add: get_or_create_label_def labels_list_def Let_def split: sum.split)
    from create show ?thesis
    proof (cases rule: labels_create_cases)
      case (refused code)
      with assms ev not_found None show ?thesis
        by (intro create_failed [of code]) (auto simp: find_label_None new_label_body_def)
    next
      case (created l)
      with assms ev not_found None show ?thesis
        by (intro that(4) [of l]) (simp_all add: new_label_body_def)
    qed
  qed
qed

section \<open>Properties of the resolver\<close>

lemma get_or_create_label_finds:
  assumes "get_or_create_label svc n w = (Inr i, w')"
  shows "\<exists>l. find_label n (labels w') = Some l \<and> lid l = i"
  using assms
proof (cases rule: get_or_create_label_cases)
  case (found l)
  then show ?thesis by simp
next
  case (created l)
  then show ?thesis by simp
qed simp_all

lemma get_or_create_label_labels:
  assumes "get_or_create_label svc n w = (r, w')"
  shows "labels w' = labels w \<or>
    (\<exists>l. labels w' = labels w @ [l] \<and> r = Inr (lid l) \<and> lname l = n \<and>
         \<not> name_conflict n (labels w))"
  using assms
proof (cases rule: get_or_create_label_cases)
  case (created l)
  then show ?thesis by (auto simp: find_label_None)
qed simp_all

lemma get_or_create_label_frame [frame_simps]:
  assumes "get_or_create_label svc n w = (r, w')"
  shows "mailbox w' = mailbox w \<and> index w' = index w \<and> page_size w' = page_size w \<and>
         faults w' = faults w \<and> token_file w' = token_file w"
  using assms by (cases rule: get_or_create_label_cases) simp_all

lemma get_or_create_label_succeeds:
  assumes "request_error svc w = None" and "request_error svc (log_call LabelsList w) = None"
  shows "\<exists>l w'. get_or_create_label svc n w = (Inr (lid l), w') \<and> find_label n (labels w') = Some l"
proof -
  obtain r w' where run: "get_or_create_label svc n w = (r, w')" by fastforce
  from run show ?thesis
  proof (cases rule: get_or_create_label_cases)
    case (found l)
    with run show ?thesis by auto
  next
    case (created l)
    with run show ?thesis by auto
  qed (use assms in simp_all)
qed

lemma get_or_create_label_found_labels:
  assumes "find_label n (labels w) = Some l" and "get_or_create_label svc n w = (r, w')"
  shows "labels w' = labels w \<and> (r = Inr (lid l) \<or> (\<exists>e. r = Inl e))"
  using assms(2) by (cases rule: get_or_create_label_cases) (use assms(1) in simp_all)

lemma get_or_create_label_Inr_out:
  assumes "get_or_create_label svc n w = (Inr i, w')"
  shows "out w' = out w @ [FoundLabel n i] \<or> out w' = out w @ [CreatedLabel n i]"
  using assms by (cases rule: get_or_create_label_cases) simp_all

lemma get_or_create_label_Inl:
  assumes "get_or_create_label svc n w = (Inl e, w')"
  shows "(\<exists>code. e = HttpError code LabelsList \<or> e = HttpError code (LabelsCreate (new_label_body n))) \<and>
         labels w' = labels w \<and> mailbox w' = mailbox w \<and> out w' = out w"
  using assms by (cases rule: get_or_create_label_cases) simp_all

lemma get_or_create_label_Inr_calls:
  assumes "get_or_create_label svc n w = (Inr i, w')"
  shows "calls w' = calls w @ [LabelsList] \<or> calls w' = calls w @ [LabelsList, LabelsCreate (new_label_body n)]"
  using assms by (cases rule: get_or_create_label_cases) simp_all

lemma get_or_create_label_found_Inr:
  assumes "find_label n (labels w) = Some l" and "get_or_create_label svc n w = (Inr i, w')"
  shows "i = lid l \<and> labels w' = labels w \<and> out w' = out w @ [FoundLabel n (lid l)]"
  using assms(2) by (cases rule: get_or_create_label_cases) (use assms(1) in simp_all)

text \<open>C16: resolving a name yields the identifier of a label of the mailbox
  whose name equals the requested one up to case.\<close>

theorem get_or_create_label_matches:
  assumes "get_or_create_label svc n w = (Inr i, w')"
  shows "\<exists>l\<in>set (labels w'). lid l = i \<and> lower (lname l) = lower n"
  using get_or_create_label_finds [OF assms] find_label_Some
  by (fastforce simp: name_matches_def)

theorem get_or_create_label_matches_witness:
  "get_or_create_label modify_cred ''rejections'' (base_world\<lparr>labels := [inbox_label, rejections_label], next_label := 8\<rparr>) =
     (Inr ''Label_7'', snd (get_or_create_label modify_cred ''rejections'' (base_world\<lparr>labels := [inbox_label, rejections_label], next_label := 8\<rparr>))) \<and>
   (\<exists>l\<in>set (labels (snd (get_or_create_label modify_cred ''rejections'' (base_world\<lparr>labels := [inbox_label, rejections_label], next_label := 8\<rparr>)))).
      lid l = ''Label_7'' \<and> lower (lname l) = lower ''rejections'')"
  using get_or_create_label_matches [of modify_cred "''rejections''" "(base_world\<lparr>labels := [inbox_label, rejections_label], next_label := 8\<rparr>)" "''Label_7''"
      "snd (get_or_create_label modify_cred ''rejections'' (base_world\<lparr>labels := [inbox_label, rejections_label], next_label := 8\<rparr>))"]
  by (simp add: model_simps)



text \<open>C7: when no label matches, one successful run creates exactly one label,
  with the requested name and both visibility settings of lines 50--54, and
  returns its identifier.\<close>

theorem get_or_create_label_creates:
  assumes "request_error svc w = None"
      and "request_error svc (log_call LabelsList w) = None"
      and "\<not> name_conflict n (labels w)"
  shows "\<exists>l w'. get_or_create_label svc n w = (Inr (lid l), w') \<and>
           labels w' = labels w @ [l] \<and> lname l = n \<and>
           labelListVisibility l = ''labelShow'' \<and> messageListVisibility l = ''show''"
proof -
  have nf: "find_label n (labels w) = None"
    using assms(3) by (simp add: find_label_None)
  let ?l = "\<lparr>lname = n, lid = label_id_of (next_label w),
             labelListVisibility = ''labelShow'', messageListVisibility = ''show''\<rparr>"
  have "labels_create svc (new_label_body n) (log_call LabelsList w) =
          (Inr ?l, (log_call (LabelsCreate (new_label_body n)) (log_call LabelsList w))
                     \<lparr>labels := labels w @ [?l], next_label := Suc (next_label w)\<rparr>)"
    using assms(2,3) by (simp add: labels_create_def new_label_body_def Let_def)
  then have "get_or_create_label svc n w =
      (Inr (lid ?l), print_event (CreatedLabel n (lid ?l))
         ((log_call (LabelsCreate (new_label_body n)) (log_call LabelsList w))
            \<lparr>labels := labels w @ [?l], next_label := Suc (next_label w)\<rparr>))"
    using assms(1) nf by (simp add: get_or_create_label_def labels_list_def Let_def)
  then show ?thesis by fastforce
qed

theorem get_or_create_label_creates_witness:
  "request_error modify_cred base_world = None \<and>
   request_error modify_cred (log_call LabelsList base_world) = None \<and>
   \<not> name_conflict ''rejections'' (labels base_world) \<and>
   (\<exists>l w'. get_or_create_label modify_cred ''rejections'' base_world = (Inr (lid l), w') \<and>
      labels w' = labels base_world @ [l] \<and> lname l = ''rejections'' \<and>
      labelListVisibility l = ''labelShow'' \<and> messageListVisibility l = ''show'')"
  using get_or_create_label_creates [of modify_cred base_world "''rejections''"]
  by (simp add: model_simps)

text \<open>C17: when a label matches up to case, the run returns the first such
  label's identifier after the single list request, and creates nothing.\<close>

theorem get_or_create_label_found:
  assumes "request_error svc w = None" and "find_label n (labels w) = Some l"
  shows "get_or_create_label svc n w =
           (Inr (lid l), print_event (FoundLabel n (lid l)) (log_call LabelsList w))"
  using assms by (simp add: get_or_create_label_def labels_list_def Let_def)

theorem get_or_create_label_found_witness:
  "request_error modify_cred (base_world\<lparr>labels := [inbox_label, rejections_label], next_label := 8\<rparr>) = None \<and>
   find_label ''rejections'' (labels (base_world\<lparr>labels := [inbox_label, rejections_label], next_label := 8\<rparr>)) = Some rejections_label \<and>
   get_or_create_label modify_cred ''rejections'' (base_world\<lparr>labels := [inbox_label, rejections_label], next_label := 8\<rparr>) =
     (Inr ''Label_7'', print_event (FoundLabel ''rejections'' ''Label_7'')
                         (log_call LabelsList (base_world\<lparr>labels := [inbox_label, rejections_label], next_label := 8\<rparr>)))"
  using get_or_create_label_found [of modify_cred "(base_world\<lparr>labels := [inbox_label, rejections_label], next_label := 8\<rparr>)" "''rejections''" rejections_label]
  by (simp add: model_simps)

end
