(* ===== verification/Batch.thy ===== *)
theory Batch
  imports Gmail_Api
begin

text \<open>
  The batch labeler, \<open>add_label_to_messages\<close> (src/label_rejections.py, lines
  87--105): an empty list prints and returns; otherwise the loop
  \<open>for i in range(0, len(ids), 1000)\<close> slices \<open>ids[i:i + 1000]\<close> and sends
  one \<open>batchModify\<close> per slice, stopping at the first request that raises.
  \<open>py_range\<close> (in \<open>Prelude\<close>) and \<open>py_slice\<close> are Python's \<open>range\<close> and
  list slicing; \<open>chunks\<close> is the reference partition into blocks of \<open>k\<close>,
  and \<open>label_all\<close> the abstract effect of labelling a list of messages at once.
  The lemmas show that the slices are exactly the reference blocks, that they
  partition the input in order within the provider's ceiling, what a run does
  when every request succeeds, and that a failing request leaves exactly the
  earlier blocks labelled and issues no later request.
\<close>

section \<open>Definitions\<close>

definition chunk_size :: nat where
  "chunk_size = 1000"

definition py_slice :: "'a list \<Rightarrow> nat \<Rightarrow> nat \<Rightarrow> 'a list" where
  "py_slice xs i j = take (j - i) (drop i xs)"

definition batch_body_for :: "label_id \<Rightarrow> msg_id list \<Rightarrow> batch_body" where
  "batch_body_for lbl chunk = \<lparr>ids = chunk, addLabelIds = [lbl], removeLabelIds = []\<rparr>"

fun batch_loop ::
  "credential \<Rightarrow> label_id \<Rightarrow> msg_id list list \<Rightarrow> world \<Rightarrow> (error + unit) \<times> world" where
  "batch_loop svc lbl [] w = (Inr (), w)"
| "batch_loop svc lbl (chunk # cs) w =
     (case batch_modify svc (batch_body_for lbl chunk) w of
        (Inl e, w') \<Rightarrow> (Inl e, w')
      | (Inr _, w') \<Rightarrow> batch_loop svc lbl cs (print_event (LabeledBatch (length chunk)) w'))"

definition add_label_to_messages ::
  "credential \<Rightarrow> msg_id list \<Rightarrow> label_id \<Rightarrow> world \<Rightarrow> (error + unit) \<times> world" where
  "add_label_to_messages svc message_ids lbl w =
     (if message_ids = [] then (Inr (), print_event NoMessagesToLabel w)
      else batch_loop svc lbl
             (map (\<lambda>i. py_slice message_ids i (i + chunk_size))
                  (py_range 0 (length message_ids) chunk_size)) w)"

function chunks :: "nat \<Rightarrow> 'a list \<Rightarrow> 'a list list" where
  "chunks k xs = (if k = 0 \<or> xs = [] then [] else take k xs # chunks k (drop k xs))"
  by pat_completeness auto
termination
  by (relation "measure (\<lambda>(k, xs). length xs)") auto

definition label_all ::
  "label_id \<Rightarrow> msg_id list \<Rightarrow> (msg_id \<Rightarrow> label_id set option) \<Rightarrow> (msg_id \<Rightarrow> label_id set option)" where
  "label_all lbl ms mb = (\<lambda>m. if m \<in> set ms then map_option (insert lbl) (mb m) else mb m)"

declare chunks.simps [simp del]
declare chunk_size_def [model_simps] py_slice_def [model_simps] batch_body_for_def [model_simps]
  add_label_to_messages_def [model_simps] label_all_def [model_simps]
  chunks.simps [model_simps]

section \<open>Slices and blocks\<close>

lemma chunks_Cons: "0 < k \<Longrightarrow> xs \<noteq> [] \<Longrightarrow> chunks k xs = take k xs # chunks k (drop k xs)"
  by (simp add: chunks.simps)

lemma chunks_Nil [simp]: "chunks k [] = []"
  by (simp add: chunks.simps)

lemma slices_eq_chunks:
  "n = length xs \<Longrightarrow> 0 < k \<Longrightarrow>
     map (\<lambda>i. py_slice xs i (i + k)) (py_range s n k) = chunks k (drop s xs)"
proof (induction s n k rule: py_range.induct)
  case (1 s n k)
  show ?case
  proof (cases "s < n")
    case True
    with "1.prems" have "drop s xs \<noteq> []" by simp
    with True "1.prems" "1.IH" show ?thesis
      by (simp add: py_range_Cons chunks_Cons py_slice_def add.commute)
  next
    case False
    with "1.prems" show ?thesis by (simp add: py_range_Nil)
  qed
qed

lemma concat_chunks [simp]: "0 < k \<Longrightarrow> concat (chunks k xs) = xs"
proof (induction k xs rule: chunks.induct)
  case (1 k xs)
  then show ?case by (cases "xs = []") (simp_all add: chunks_Cons)
qed

lemma chunks_bounded: "c \<in> set (chunks k xs) \<Longrightarrow> c \<noteq> [] \<and> length c \<le> k"
proof (induction k xs rule: chunks.induct)
  case (1 k xs)
  then show ?case
    by (cases "k = 0 \<or> xs = []") (auto simp: chunks.simps [of k xs])
qed

lemma map_length_chunks:
  "0 < k \<Longrightarrow> map length (chunks k xs) =
     replicate (length xs div k) k @ (if length xs mod k = 0 then [] else [length xs mod k])"
proof (induction k xs rule: chunks.induct)
  case (1 k xs)
  show ?case
  proof (cases "xs = []")
    case True
    then show ?thesis by simp
  next
    case False
    show ?thesis
    proof (cases "k \<le> length xs")
      case True
      then have "length xs div k = Suc ((length xs - k) div k)"
        and "length xs mod k = (length xs - k) mod k"
        using "1.prems" by (simp_all add: le_div_geq le_mod_geq)
      with True False "1.IH" "1.prems" show ?thesis by (simp add: chunks_Cons)
    next
      case short: False
      then have "drop k xs = []" by simp
      with short False "1.prems" show ?thesis by (simp add: chunks_Cons)
    qed
  qed
qed

section \<open>The loop over blocks\<close>

lemma label_all_Nil [simp]: "label_all lbl [] mb = mb"
  by (simp add: label_all_def)

lemma label_all_append: "label_all lbl (xs @ ys) mb = label_all lbl ys (label_all lbl xs mb)"
  by (auto simp: label_all_def fun_eq_iff option.map_comp comp_def)

lemma apply_labels_batch_body: "apply_labels (batch_body_for lbl c) mb = label_all lbl c mb"
  by (simp add: apply_labels_def batch_body_for_def label_all_def fun_eq_iff)

lemma batch_body_for_sel [simp]:
  "ids (batch_body_for lbl c) = c" "addLabelIds (batch_body_for lbl c) = [lbl]"
  "removeLabelIds (batch_body_for lbl c) = []"
  by (simp_all add: batch_body_for_def)

lemma batch_loop_ok:
  assumes "authorized svc" and "lbl \<in> lid ` set (labels w)"
      and "\<forall>c\<in>set cs. length c \<le> batch_limit"
      and "\<forall>k<length cs. length (calls w) + k \<notin> faults w"
  shows "batch_loop svc lbl cs w =
           (Inr (), w\<lparr>mailbox := label_all lbl (concat cs) (mailbox w),
                      calls := calls w @ map (\<lambda>c. BatchModify (batch_body_for lbl c)) cs,
                      out := out w @ map (\<lambda>c. LabeledBatch (length c)) cs\<rparr>)"
  using assms(2-4)
proof (induction cs arbitrary: w)
  case Nil
  then show ?case by simp
next
  case (Cons c cs)
  have ok: "request_error svc w = None"
    using assms(1) Cons.prems(3) by (auto simp: request_error_None_iff dest: spec [of _ 0])
  let ?w1 = "print_event (LabeledBatch (length c))
               ((log_call (BatchModify (batch_body_for lbl c)) w)\<lparr>mailbox := label_all lbl c (mailbox w)\<rparr>)"
  have step: "batch_loop svc lbl (c # cs) w = batch_loop svc lbl cs ?w1"
    using ok Cons.prems(1,2)
    by (simp add: batch_modify_ok apply_labels_batch_body)
  have "batch_loop svc lbl cs ?w1 =
          (Inr (), ?w1\<lparr>mailbox := label_all lbl (concat cs) (mailbox ?w1),
                      calls := calls ?w1 @ map (\<lambda>c. BatchModify (batch_body_for lbl c)) cs,
                      out := out ?w1 @ map (\<lambda>c. LabeledBatch (length c)) cs\<rparr>)"
    using Cons.prems by (intro Cons.IH) (auto simp: print_event_def log_call_def)
  with step show ?case
    by (simp add: print_event_def log_call_def label_all_append)
qed

lemma batch_loop_fault:
  assumes "authorized svc" and "lbl \<in> lid ` set (labels w)"
      and "\<forall>c\<in>set cs. length c \<le> batch_limit" and "j < length cs"
      and "\<forall>k<j. length (calls w) + k \<notin> faults w" and "length (calls w) + j \<in> faults w"
  shows "batch_loop svc lbl cs w =
           (Inl (HttpError 503 (BatchModify (batch_body_for lbl (cs ! j)))),
            w\<lparr>mailbox := label_all lbl (concat (take j cs)) (mailbox w),
              calls := calls w @ map (\<lambda>c. BatchModify (batch_body_for lbl c)) (take (Suc j) cs),
              out := out w @ map (\<lambda>c. LabeledBatch (length c)) (take j cs)\<rparr>)"
  using assms(2-6)
proof (induction cs arbitrary: w j)
  case Nil
  then show ?case by simp
next
  case (Cons c cs)
  show ?case
  proof (cases j)
    case 0
    with Cons.prems assms(1) have "request_error svc w = Some 503"
      by (simp add: request_error_fault)
    with 0 show ?thesis
      by (simp add: batch_modify_refused log_call_def)
  next
    case (Suc j')
    have ok: "request_error svc w = None"
      using assms(1) Cons.prems(4) Suc by (auto simp: request_error_None_iff dest: spec [of _ 0])
    let ?w1 = "print_event (LabeledBatch (length c))
                 ((log_call (BatchModify (batch_body_for lbl c)) w)\<lparr>mailbox := label_all lbl c (mailbox w)\<rparr>)"
    have step: "batch_loop svc lbl (c # cs) w = batch_loop svc lbl cs ?w1"
      using ok Cons.prems(1,2)
      by (simp add: batch_modify_ok apply_labels_batch_body)
    have "batch_loop svc lbl cs ?w1 =
            (Inl (HttpError 503 (BatchModify (batch_body_for lbl (cs ! j')))),
             ?w1\<lparr>mailbox := label_all lbl (concat (take j' cs)) (mailbox ?w1),
                 calls := calls ?w1 @ map (\<lambda>c. BatchModify (batch_body_for lbl c)) (take (Suc j') cs),
                 out := out ?w1 @ map (\<lambda>c. LabeledBatch (length c)) (take j' cs)\<rparr>)"
      using Cons.prems Suc
      by (intro Cons.IH) (auto simp: print_event_def log_call_def)
    with step Suc show ?thesis
      by (simp add: print_event_def log_call_def label_all_append)
  qed
qed

lemma batch_loop_calls:
  "\<exists>j\<le>length cs. calls (snd (batch_loop svc lbl cs w)) =
      calls w @ map (\<lambda>c. BatchModify (batch_body_for lbl c)) (take j cs)"
proof (induction cs arbitrary: w)
  case Nil
  then show ?case by simp
next
  case (Cons c cs)
  obtain r w' where bm: "batch_modify svc (batch_body_for lbl c) w = (r, w')"
    by fastforce
  have w'calls: "calls w' = calls w @ [BatchModify (batch_body_for lbl c)]"
    using batch_modify_calls [of svc "batch_body_for lbl c" w] bm by simp
  show ?case
  proof (cases r)
    case (Inl e)
    with bm w'calls show ?thesis
      by (intro exI [of _ 1]) simp
  next
    case (Inr u)
    obtain j where "j \<le> length cs" and
      j: "calls (snd (batch_loop svc lbl cs (print_event (LabeledBatch (length c)) w'))) =
            calls w' @ map (\<lambda>c. BatchModify (batch_body_for lbl c)) (take j cs)"
      using Cons.IH [of "print_event (LabeledBatch (length c)) w'"] by auto
    with bm Inr w'calls show ?thesis
      by (intro exI [of _ "Suc j"]) simp
  qed
qed

lemma concat_take_chunks: "0 < k \<Longrightarrow> concat (take j (chunks k xs)) = take (j * k) xs"
proof (induction k xs arbitrary: j rule: chunks.induct)
  case (1 k xs)
  show ?case
  proof (cases "xs = [] \<or> j = 0")
    case True
    then show ?thesis by auto
  next
    case False
    then obtain j' where j: "j = Suc j'" and xs: "xs \<noteq> []" by (cases j) auto
    have "concat (take j' (chunks k (drop k xs))) = take (j' * k) (drop k xs)"
      using "1.IH" "1.prems" xs by simp
    with j xs "1.prems" show ?thesis
      by (simp add: chunks_Cons take_add add.commute)
  qed
qed

lemma add_label_slices [simp]:
  "map (\<lambda>i. py_slice xs i (i + chunk_size)) (py_range 0 (length xs) chunk_size) =
     chunks chunk_size xs"
  by (simp add: slices_eq_chunks chunk_size_def)

lemma chunk_size_blocks_bounded: "\<forall>c\<in>set (chunks chunk_size xs). length c \<le> batch_limit"
  using chunks_bounded by (fastforce simp: chunk_size_def batch_limit_def)

lemma add_label_to_messages_eq:
  assumes "authorized svc" and "lbl \<in> lid ` set (labels w)"
      and "\<forall>k<length (chunks chunk_size message_ids). length (calls w) + k \<notin> faults w"
  shows "add_label_to_messages svc message_ids lbl w =
           (Inr (), w\<lparr>mailbox := label_all lbl message_ids (mailbox w),
                      calls := calls w @ map (\<lambda>c. BatchModify (batch_body_for lbl c))
                                          (chunks chunk_size message_ids),
                      out := out w @ (if message_ids = [] then [NoMessagesToLabel]
                                      else map (\<lambda>c. LabeledBatch (length c))
                                             (chunks chunk_size message_ids))\<rparr>)"
proof (cases "message_ids = []")
  case True
  then show ?thesis by (simp add: add_label_to_messages_def print_event_def)
next
  case False
  have pos: "0 < chunk_size" by (simp add: chunk_size_def)
  from False show ?thesis
    using batch_loop_ok [OF assms(1,2) chunk_size_blocks_bounded assms(3)] pos
    by (simp add: add_label_to_messages_def)
qed

lemma chunks_2500:
  "length xs = 2500 \<Longrightarrow>
     chunks chunk_size xs = [take 1000 xs, take 1000 (drop 1000 xs), drop 2000 xs]"
proof -
  assume len: "length xs = 2500"
  then have ne: "xs \<noteq> []" "drop 1000 xs \<noteq> []" "drop 2000 xs \<noteq> []"
    and last: "take 1000 (drop 2000 xs) = drop 2000 xs" "drop 3000 xs = []"
    by (auto simp flip: length_0_conv)
  then show ?thesis by (simp add: chunk_size_def chunks_Cons)
qed

lemma label_all_idem [simp]: "label_all lbl ms (label_all lbl ms mb) = label_all lbl ms mb"
  by (auto simp: label_all_def fun_eq_iff option.map_comp comp_def)

lemma batch_loop_frame:
  "batch_loop svc lbl cs w = (r, w') \<Longrightarrow>
     labels w' = labels w \<and> index w' = index w \<and> page_size w' = page_size w \<and>
     faults w' = faults w \<and> token_file w' = token_file w \<and> next_label w' = next_label w"
proof (induction cs arbitrary: w)
  case Nil
  then show ?case by simp
next
  case (Cons c cs)
  obtain res w1 where bm: "batch_modify svc (batch_body_for lbl c) w = (res, w1)" by fastforce
  note fr = batch_modify_frame [OF bm]
  show ?case
  proof (cases res)
    case (Inl e)
    with Cons.prems bm fr show ?thesis by simp
  next
    case (Inr u)
    with Cons.prems bm have "batch_loop svc lbl cs (print_event (LabeledBatch (length c)) w1) = (r, w')"
      by simp
    from Cons.IH [OF this] fr show ?thesis by simp
  qed
qed

lemma add_label_to_messages_frame [frame_simps]:
  assumes "add_label_to_messages svc message_ids lbl w = (r, w')"
  shows "labels w' = labels w \<and> index w' = index w \<and> page_size w' = page_size w \<and>
         faults w' = faults w \<and> token_file w' = token_file w \<and> next_label w' = next_label w"
  using assms batch_loop_frame
  by (auto simp: add_label_to_messages_def split: if_splits)

lemma batch_loop_Inr_mailbox:
  "batch_loop svc lbl cs w = (Inr (), w') \<Longrightarrow> mailbox w' = label_all lbl (concat cs) (mailbox w)"
proof (induction cs arbitrary: w)
  case Nil
  then show ?case by simp
next
  case (Cons c cs)
  obtain res w1 where bm: "batch_modify svc (batch_body_for lbl c) w = (res, w1)" by fastforce
  show ?case
  proof (cases res)
    case (Inl e)
    with Cons.prems bm show ?thesis by simp
  next
    case (Inr u)
    with Cons.prems bm have "batch_loop svc lbl cs (print_event (LabeledBatch (length c)) w1) = (Inr (), w')"
      by simp
    from Cons.IH [OF this] batch_modify_Inr_mailbox [OF bm [unfolded Inr]] show ?thesis
      by (simp add: apply_labels_batch_body label_all_append)
  qed
qed

lemma add_label_to_messages_Inr_mailbox:
  assumes "add_label_to_messages svc message_ids lbl w = (Inr (), w')"
  shows "mailbox w' = label_all lbl message_ids (mailbox w)"
proof (cases "message_ids = []")
  case True
  with assms show ?thesis by (auto simp: add_label_to_messages_def)
next
  case False
  have "0 < chunk_size" by (simp add: chunk_size_def)
  with False assms batch_loop_Inr_mailbox show ?thesis
    by (fastforce simp: add_label_to_messages_def)
qed

section \<open>Properties of add_label_to_messages\<close>

lemma length_chunks: "0 < k \<Longrightarrow> length (chunks k xs) = (length xs + k - 1) div k"
proof (induction k xs rule: chunks.induct)
  case (1 k xs)
  show ?case
  proof (cases "xs = []")
    case True
    then show ?thesis using "1.prems" by (simp add: div_less)
  next
    case False
    have "k \<le> length xs + k - 1"
      using False by (cases xs) simp_all
    then have "(length xs + k - 1) div k = Suc ((length xs - 1) div k)"
      using "1.prems" le_div_geq [of k "length xs + k - 1"] by simp
    moreover have "(length xs - k + k - 1) div k = (length xs - 1) div k"
    proof (cases "k \<le> length xs")
      case True
      then show ?thesis by (simp add: algebra_simps)
    next
      case False
      then have "length xs - 1 < k" "k - 1 < k"
        using "1.prems" by linarith+
      with False show ?thesis by (simp add: div_less)
    qed
    ultimately show ?thesis
      using False "1.IH" "1.prems" by (simp add: chunks_Cons)
  qed
qed

lemma batch_loop_Inr_log:
  "batch_loop svc lbl cs w = (Inr (), w') \<Longrightarrow>
     calls w' = calls w @ map (\<lambda>c. BatchModify (batch_body_for lbl c)) cs \<and>
     out w' = out w @ map (\<lambda>c. LabeledBatch (length c)) cs"
proof (induction cs arbitrary: w)
  case Nil
  then show ?case by simp
next
  case (Cons c cs)
  obtain res w1 where bm: "batch_modify svc (batch_body_for lbl c) w = (res, w1)" by fastforce
  have w1: "calls w1 = calls w @ [BatchModify (batch_body_for lbl c)]" "out w1 = out w"
    using batch_modify_calls [of svc "batch_body_for lbl c" w] batch_modify_frame [OF bm] bm by simp_all
  show ?case
  proof (cases res)
    case (Inl e)
    with Cons.prems bm show ?thesis by simp
  next
    case (Inr u)
    with Cons.prems bm have "batch_loop svc lbl cs (print_event (LabeledBatch (length c)) w1) = (Inr (), w')"
      by simp
    from Cons.IH [OF this] w1 show ?thesis by simp
  qed
qed

lemma add_label_to_messages_Inr_log:
  assumes "add_label_to_messages svc message_ids lbl w = (Inr (), w')"
  shows "calls w' = calls w @ map (\<lambda>c. BatchModify (batch_body_for lbl c)) (chunks chunk_size message_ids) \<and>
         out w' = out w @ (if message_ids = [] then [NoMessagesToLabel]
                           else map (\<lambda>c. LabeledBatch (length c)) (chunks chunk_size message_ids))"
proof (cases "message_ids = []")
  case True
  with assms show ?thesis by (auto simp: add_label_to_messages_def)
next
  case False
  have "0 < chunk_size" by (simp add: chunk_size_def)
  with False assms batch_loop_Inr_log show ?thesis
    by (fastforce simp: add_label_to_messages_def)
qed

lemma batch_loop_Inl:
  "batch_loop svc lbl cs w = (Inl e, w') \<Longrightarrow>
     (\<exists>code b. e = HttpError code (BatchModify b)) \<and>
     (\<exists>j. mailbox w' = label_all lbl (concat (take j cs)) (mailbox w))"
proof (induction cs arbitrary: w)
  case Nil
  then show ?case by simp
next
  case (Cons c cs)
  obtain res w1 where bm: "batch_modify svc (batch_body_for lbl c) w = (res, w1)" by fastforce
  show ?case
  proof (cases res)
    case (Inl e')
    with Cons.prems bm have ee: "e = e'" and ww: "w' = w1" by simp_all
    have "\<exists>code. e' = HttpError code (BatchModify (batch_body_for lbl c))"
      using bm Inl by (auto simp: batch_modify_def Let_def split: option.splits if_splits)
    with ee have c1: "\<exists>code b. e = HttpError code (BatchModify b)" by blast
    have "mailbox w1 = mailbox w"
      using bm Inl by (auto simp: batch_modify_def Let_def split: option.splits if_splits)
    then have c2: "\<exists>j. mailbox w' = label_all lbl (concat (take j (c # cs))) (mailbox w)"
      by (intro exI [of _ 0]) (simp add: ww)
    from c1 c2 show ?thesis ..
  next
    case (Inr u)
    with Cons.prems bm have rest: "batch_loop svc lbl cs (print_event (LabeledBatch (length c)) w1) = (Inl e, w')"
      by simp
    from Cons.IH [OF rest] obtain j where
      "mailbox w' = label_all lbl (concat (take j cs)) (mailbox w1)"
      and err: "\<exists>code b. e = HttpError code (BatchModify b)" by auto
    moreover have "mailbox w1 = label_all lbl c (mailbox w)"
      using batch_modify_Inr_mailbox [OF bm [unfolded Inr]] by (simp add: apply_labels_batch_body)
    ultimately have "mailbox w' = label_all lbl (concat (take (Suc j) (c # cs))) (mailbox w)"
      by (simp add: label_all_append)
    with err show ?thesis by blast
  qed
qed

lemma add_label_to_messages_Inl:
  assumes "add_label_to_messages svc message_ids lbl w = (Inl e, w')"
  shows "(\<exists>code b. e = HttpError code (BatchModify b)) \<and>
         (\<exists>j. mailbox w' = label_all lbl (take (j * chunk_size) message_ids) (mailbox w))"
proof -
  have k: "0 < chunk_size" by (simp add: chunk_size_def)
  from assms have "message_ids \<noteq> []" by (auto simp: add_label_to_messages_def)
  with assms k have "batch_loop svc lbl (chunks chunk_size message_ids) w = (Inl e, w')"
    by (simp add: add_label_to_messages_def)
  from batch_loop_Inl [OF this] show ?thesis
    by (simp add: concat_take_chunks [OF k])
qed

text \<open>C18: the loop of lines 95--96 (\<open>range(0, len, 1000)\<close> and the slice
  \<open>ids[i:i + 1000]\<close>) computes exactly the reference partition into blocks of
  1000.\<close>

theorem add_label_blocks_eq_chunks:
  "map (\<lambda>i. py_slice message_ids i (i + chunk_size)) (py_range 0 (length message_ids) chunk_size) =
     chunks 1000 message_ids"
  using slices_eq_chunks [of "length message_ids" message_ids 1000 0] by (simp add: chunk_size_def)

text \<open>C19: when the credential has the scope, the label exists and no request
  of the run fails, \<open>add_label_to_messages\<close> issues one \<open>batchModify\<close> per
  block, each adding the label and removing none, labels exactly the given
  messages, and prints one line per block (or the no-messages line).\<close>

theorem add_label_to_messages_ok:
  assumes "authorized svc" and "lbl \<in> lid ` set (labels w)"
      and "\<forall>k<length (chunks chunk_size message_ids). length (calls w) + k \<notin> faults w"
  shows "add_label_to_messages svc message_ids lbl w =
           (Inr (), w\<lparr>mailbox := label_all lbl message_ids (mailbox w),
                      calls := calls w @ map (\<lambda>c. BatchModify (batch_body_for lbl c))
                                          (chunks chunk_size message_ids),
                      out := out w @ (if message_ids = [] then [NoMessagesToLabel]
                                      else map (\<lambda>c. LabeledBatch (length c))
                                             (chunks chunk_size message_ids))\<rparr>)"
  using assms by (rule add_label_to_messages_eq)

theorem add_label_to_messages_ok_witness:
  "add_label_to_messages modify_cred [''m1'', ''m2''] ''Label_7'' rej_world =
     (Inr (), rej_world\<lparr>mailbox := label_all ''Label_7'' [''m1'', ''m2''] (mailbox rej_world),
                        calls := calls rej_world @ [BatchModify (batch_body_for ''Label_7'' [''m1'', ''m2''])],
                        out := out rej_world @ [LabeledBatch 2]\<rparr>)"
  using add_label_to_messages_ok [of modify_cred "''Label_7''" rej_world "[''m1'', ''m2'']"]
  by (simp add: model_simps)

text \<open>C6: a request that fails at block \<open>j\<close> ends the run with that
  request's error: the first \<open>j\<close> blocks (the first \<open>1000 j\<close> messages) stay
  labelled, no later block is sent, and nothing is rolled back.\<close>

theorem add_label_to_messages_fault:
  assumes "authorized svc" and "lbl \<in> lid ` set (labels w)"
      and "j < length (chunks chunk_size message_ids)"
      and "\<forall>k<j. length (calls w) + k \<notin> faults w" and "length (calls w) + j \<in> faults w"
  shows "add_label_to_messages svc message_ids lbl w =
     (Inl (HttpError 503 (BatchModify (batch_body_for lbl (chunks chunk_size message_ids ! j)))),
      w\<lparr>mailbox := label_all lbl (take (j * chunk_size) message_ids) (mailbox w),
        calls := calls w @ map (\<lambda>c. BatchModify (batch_body_for lbl c))
                               (take (Suc j) (chunks chunk_size message_ids)),
        out := out w @ map (\<lambda>c. LabeledBatch (length c)) (take j (chunks chunk_size message_ids))\<rparr>)"
proof -
  have pos: "0 < chunk_size" by (simp add: chunk_size_def)
  from assms(3) have "message_ids \<noteq> []" by auto
  with batch_loop_fault [OF assms(1,2) chunk_size_blocks_bounded assms(3-5)] pos show ?thesis
    by (simp add: add_label_to_messages_def concat_take_chunks)
qed

theorem add_label_to_messages_fault_witness:
  "fst (add_label_to_messages modify_cred (replicate 1001 ''m1'') ''Label_7'' (rej_world\<lparr>faults := {1}\<rparr>)) =
     Inl (HttpError 503 (BatchModify (batch_body_for ''Label_7'' [''m1'']))) \<and>
   length (calls (snd (add_label_to_messages modify_cred (replicate 1001 ''m1'') ''Label_7''
                         (rej_world\<lparr>faults := {1}\<rparr>)))) = 2"
  using add_label_to_messages_fault [of modify_cred "''Label_7''" "rej_world\<lparr>faults := {1}\<rparr>" 1
      "replicate 1001 ''m1''"]
  by (simp add: modify_cred_def gmail_modify_def authorized_def rej_world_def base_world_def
      rejections_label_def inbox_label_def chunk_size_def chunks.simps)

text \<open>C20: the spec's example: 2500 identifiers with no failing request give
  exactly three \<open>batchModify\<close> requests, of 1000, 1000 and 500 identifiers, each
  adding the same label and removing none.\<close>

theorem add_label_to_messages_2500:
  assumes "length message_ids = 2500" and "authorized svc"
      and "lbl \<in> lid ` set (labels w)" and "\<forall>k<3. length (calls w) + k \<notin> faults w"
  shows "calls (snd (add_label_to_messages svc message_ids lbl w)) =
           calls w @ [BatchModify \<lparr>ids = take 1000 message_ids, addLabelIds = [lbl], removeLabelIds = []\<rparr>,
                      BatchModify \<lparr>ids = take 1000 (drop 1000 message_ids), addLabelIds = [lbl],
                                   removeLabelIds = []\<rparr>,
                      BatchModify \<lparr>ids = drop 2000 message_ids, addLabelIds = [lbl], removeLabelIds = []\<rparr>]
         \<and> map length [take 1000 message_ids, take 1000 (drop 1000 message_ids), drop 2000 message_ids] =
           [1000, 1000, 500]"
proof -
  have blocks: "chunks chunk_size message_ids =
      [take 1000 message_ids, take 1000 (drop 1000 message_ids), drop 2000 message_ids]"
    using assms(1) by (rule chunks_2500)
  have "\<forall>k<length (chunks chunk_size message_ids). length (calls w) + k \<notin> faults w"
    using assms(4) by (simp add: blocks)
  from add_label_to_messages_eq [OF assms(2,3) this] assms(1) show ?thesis
    by (simp add: blocks batch_body_for_def)
qed

theorem add_label_to_messages_2500_witness:
  "map (\<lambda>q. case q of BatchModify b \<Rightarrow> length (ids b) | _ \<Rightarrow> 0)
       (calls (snd (add_label_to_messages modify_cred (replicate 2500 ''m1'') ''Label_7'' rej_world))) =
     [1000, 1000, 500]"
  using add_label_to_messages_2500 [of "replicate 2500 ''m1''" modify_cred "''Label_7''" rej_world]
  by (simp add: modify_cred_def gmail_modify_def authorized_def rej_world_def base_world_def
      rejections_label_def inbox_label_def)

text \<open>C5: whatever the outcome, every request \<open>add_label_to_messages\<close> sends
  is a \<open>batchModify\<close> of between 1 and 1000 identifiers that adds the label and
  removes none: the provider's ceiling is never exceeded.\<close>

theorem add_label_to_messages_requests_bounded:
  assumes "add_label_to_messages svc message_ids lbl w = (r, w')"
  shows "\<exists>new. calls w' = calls w @ new \<and>
           (\<forall>q\<in>set new. \<exists>b. q = BatchModify b \<and> ids b \<noteq> [] \<and> length (ids b) \<le> batch_limit \<and>
                             addLabelIds b = [lbl] \<and> removeLabelIds b = [])"
proof (cases "message_ids = []")
  case True
  with assms show ?thesis by (auto simp: add_label_to_messages_def)
next
  case False
  let ?cs = "chunks chunk_size message_ids"
  obtain j where calls: "calls (snd (batch_loop svc lbl ?cs w)) =
      calls w @ map (\<lambda>c. BatchModify (batch_body_for lbl c)) (take j ?cs)"
    using batch_loop_calls by blast
  have "\<forall>c\<in>set (take j ?cs). c \<noteq> [] \<and> length c \<le> batch_limit"
    using chunks_bounded chunk_size_blocks_bounded by (blast dest: in_set_takeD)
  with calls False assms show ?thesis
    by (intro exI [of _ "map (\<lambda>c. BatchModify (batch_body_for lbl c)) (take j ?cs)"])
       (auto simp: add_label_to_messages_def)
qed

theorem add_label_to_messages_requests_bounded_witness:
  "add_label_to_messages modify_cred [''m1''] ''Label_7'' base_world =
     (fst (add_label_to_messages modify_cred [''m1''] ''Label_7'' base_world),
      snd (add_label_to_messages modify_cred [''m1''] ''Label_7'' base_world)) \<and>
   (\<exists>new. calls (snd (add_label_to_messages modify_cred [''m1''] ''Label_7'' base_world)) =
            calls base_world @ new \<and>
      list_all (\<lambda>q. \<exists>b. q = BatchModify b \<and> ids b \<noteq> [] \<and> length (ids b) \<le> batch_limit \<and>
                       addLabelIds b = [''Label_7''] \<and> removeLabelIds b = []) new)"
  using add_label_to_messages_requests_bounded [of modify_cred "[''m1'']" "''Label_7''" base_world
      "fst (add_label_to_messages modify_cred [''m1''] ''Label_7'' base_world)"
      "snd (add_label_to_messages modify_cred [''m1''] ''Label_7'' base_world)"]
  by (simp add: list_all_iff)

text \<open>C9: a successful run of \<open>add_label_to_messages\<close> sends exactly
  \<open>ceil(n / 1000)\<close> batchModify requests for \<open>n\<close> identifiers: one per slice
  of the \<open>range(0, n, 1000)\<close> loop, and none for an empty list.\<close>

theorem add_label_to_messages_request_count:
  assumes "add_label_to_messages svc message_ids lbl w = (Inr (), w')"
  shows "length (calls w') = length (calls w) + (length message_ids + 999) div 1000"
  using add_label_to_messages_Inr_log [OF assms] length_chunks [of chunk_size message_ids]
  by (simp add: chunk_size_def)

theorem add_label_to_messages_request_count_witness:
  "fst (add_label_to_messages modify_cred (replicate 2500 ''m1'') ''Label_7'' rej_world) = Inr () \<and>
   length (calls (snd (add_label_to_messages modify_cred (replicate 2500 ''m1'') ''Label_7'' rej_world))) = 3"
proof -
  obtain r w' where run: "add_label_to_messages modify_cred (replicate 2500 ''m1'') ''Label_7'' rej_world = (r, w')"
    by fastforce
  have "r = Inr ()"
    using add_label_to_messages_eq [of modify_cred "''Label_7''" rej_world "replicate 2500 ''m1''"] run
    by (simp add: model_simps authorized_def)
  with add_label_to_messages_request_count [of modify_cred "replicate 2500 ''m1''" "''Label_7''" rej_world w'] run
  show ?thesis by (simp add: model_simps)
qed

end
