(* ===== verification/Search.thy ===== *)
theory Search
  imports Gmail_Api
begin

text \<open>
  The message searcher, \<open>search_messages\<close> (src/label_rejections.py, lines
  64--84): a first \<open>messages.list\<close> request for the query, then
  \<open>while request is not None\<close> it executes the request, appends the
  identifiers of the page (\<open>response.get('messages', [])\<close>) and asks
  \<open>list_next\<close> for the continuation request, which is \<open>None\<close> when the
  response carries no \<open>nextPageToken\<close>.

  The \<open>while\<close> loop has no bound of its own: it ends only when the provider
  stops sending page tokens. It is modelled with fuel: \<open>search_loop\<close> runs one
  iteration per unit, and \<open>None\<close> means the fuel ran out (the Python loop is
  still running). The lemmas show that the loop ends, with fuel above the
  number of hits, whenever the provider pages forward (\<open>0 < page_size\<close>);
  that it then returns every hit of the query in the provider's order (the
  loop refines a one-shot search); that a failing page request raises and
  discards what was collected; and that a provider whose page size is 0 keeps
  the loop running for any amount of fuel.
\<close>

section \<open>Definitions\<close>

definition list_request_for :: "string \<Rightarrow> list_request" where
  "list_request_for q = \<lparr>req_q = q, req_pageToken = None\<rparr>"

text \<open>\<open>googleapiclient\<close>'s \<open>list_next\<close>: the previous request with the page
  token of the previous response, or \<open>None\<close> when there is none.\<close>

definition list_next :: "list_request \<Rightarrow> messages_response \<Rightarrow> list_request option" where
  "list_next rq resp =
     (case nextPageToken resp of None \<Rightarrow> None | Some t \<Rightarrow> Some (rq\<lparr>req_pageToken := Some t\<rparr>))"

definition get_messages :: "messages_response \<Rightarrow> message_ref list" where
  "get_messages resp = (case resp_messages resp of None \<Rightarrow> [] | Some ms \<Rightarrow> ms)"

fun search_loop ::
  "nat \<Rightarrow> credential \<Rightarrow> list_request option \<Rightarrow> msg_id list \<Rightarrow> world \<Rightarrow>
     ((error + msg_id list) \<times> world) option" where
  "search_loop 0 svc request message_ids w = None"
| "search_loop (Suc n) svc None message_ids w = Some (Inr message_ids, w)"
| "search_loop (Suc n) svc (Some rq) message_ids w =
     (case messages_list svc rq w of
        (Inl e, w') \<Rightarrow> Some (Inl e, w')
      | (Inr response, w') \<Rightarrow>
          search_loop n svc (list_next rq response)
            (message_ids @ map mid (get_messages response)) w')"

definition search_messages ::
  "nat \<Rightarrow> credential \<Rightarrow> string \<Rightarrow> world \<Rightarrow> ((error + msg_id list) \<times> world) option" where
  "search_messages fuel svc query w =
     (case search_loop fuel svc (Some (list_request_for query)) [] w of
        None \<Rightarrow> None
      | Some (Inl e, w') \<Rightarrow> Some (Inl e, w')
      | Some (Inr message_ids, w') \<Rightarrow>
          Some (Inr message_ids, print_event (FoundMessages (length message_ids)) w'))"

text \<open>The requests a run sends when the provider pages forward by \<open>ps\<close> over
  \<open>len\<close> hits, starting from token \<open>tok\<close> (a specification, not code).\<close>

definition search_requests ::
  "string \<Rightarrow> nat \<Rightarrow> nat \<Rightarrow> page_token option \<Rightarrow> list_request list" where
  "search_requests q ps len tok =
     \<lparr>req_q = q, req_pageToken = tok\<rparr> #
     map (\<lambda>k. \<lparr>req_q = q, req_pageToken = Some (PageToken k)\<rparr>) (py_range (page_offset tok + ps) len ps)"

text \<open>Fixture: five hits served two per page, as in the spec's pagination test.\<close>

definition paged_world :: world where
  "paged_world =
     base_world\<lparr>index := (\<lambda>_. map (\<lambda>i. \<lparr>mid = i, threadId = i\<rparr>) [''a'', ''b'', ''c'', ''d'', ''e'']),
                page_size := 2\<rparr>"

declare search_loop.simps(3) [simp del]
declare search_loop.simps(3) [model_simps] list_request_for_def [model_simps] list_next_def [model_simps] get_messages_def [model_simps]
  search_messages_def [model_simps] search_requests_def [model_simps]
  paged_world_def [model_simps]

section \<open>One iteration\<close>

lemma search_loop_step:
  assumes "request_error svc w = None"
  shows "search_loop (Suc n) svc (Some \<lparr>req_q = q, req_pageToken = tok\<rparr>) acc w =
    search_loop n svc
      (if page_offset tok + page_size w < length (index w q)
       then Some \<lparr>req_q = q, req_pageToken = Some (PageToken (page_offset tok + page_size w))\<rparr>
       else None)
      (acc @ map mid (take (page_size w) (drop (page_offset tok) (index w q))))
      (log_call (MessagesList \<lparr>req_q = q, req_pageToken = tok\<rparr>) w)"
  using assms
  by (simp add: search_loop.simps(3) messages_list_def Let_def list_next_def get_messages_def)

lemma search_loop_refused:
  "request_error svc w = Some code \<Longrightarrow>
     search_loop (Suc n) svc (Some rq) acc w =
       Some (Inl (HttpError code (MessagesList rq)), log_call (MessagesList rq) w)"
  by (simp add: search_loop.simps(3) messages_list_def Let_def)

lemma search_requests_more:
  "0 < ps \<Longrightarrow> page_offset tok + ps < len \<Longrightarrow>
     search_requests q ps len tok =
       \<lparr>req_q = q, req_pageToken = tok\<rparr> # search_requests q ps len (Some (PageToken (page_offset tok + ps)))"
  by (simp add: search_requests_def py_range_Cons page_offset_def)

lemma search_requests_last:
  "\<not> page_offset tok + ps < len \<Longrightarrow> search_requests q ps len tok = [\<lparr>req_q = q, req_pageToken = tok\<rparr>]"
  by (simp add: search_requests_def py_range_Nil)

lemma length_py_range_le: "0 < step \<Longrightarrow> length (py_range start stop step) \<le> stop - start"
proof (induction start stop step rule: py_range.induct)
  case (1 start stop step)
  show ?case
  proof (cases "start < stop")
    case True
    with "1.IH" "1.prems" have "length (py_range (start + step) stop step) \<le> stop - (start + step)"
      by simp
    with True "1.prems" show ?thesis by (simp add: py_range_Cons)
  next
    case False
    then show ?thesis by (simp add: py_range_Nil)
  qed
qed

section \<open>Runs of the loop\<close>

lemma search_loop_ok:
  assumes "0 < page_size w" and "authorized svc"
      and "\<forall>k<length (search_requests q (page_size w) (length (index w q)) tok).
             length (calls w) + k \<notin> faults w"
      and "length (search_requests q (page_size w) (length (index w q)) tok) < n"
  shows "search_loop n svc (Some \<lparr>req_q = q, req_pageToken = tok\<rparr>) acc w =
           Some (Inr (acc @ map mid (drop (page_offset tok) (index w q))),
                 w\<lparr>calls := calls w @ map MessagesList
                                       (search_requests q (page_size w) (length (index w q)) tok)\<rparr>)"
  using assms(1,3,4)
proof (induction n arbitrary: tok acc w)
  case 0
  then show ?case by simp
next
  case (Suc n)
  let ?hits = "index w q" and ?ps = "page_size w" and ?off = "page_offset tok"
  have ok: "request_error svc w = None"
    using assms(2) Suc.prems(2) by (auto simp: request_error_None_iff search_requests_def dest: spec [of _ 0])
  show ?case
  proof (cases "?off + ?ps < length ?hits")
    case True
    let ?tok' = "Some (PageToken (?off + ?ps))"
    have reqs: "search_requests q ?ps (length ?hits) tok =
                  \<lparr>req_q = q, req_pageToken = tok\<rparr> # search_requests q ?ps (length ?hits) ?tok'"
      using Suc.prems(1) True by (rule search_requests_more)
    have "search_loop n svc (Some \<lparr>req_q = q, req_pageToken = ?tok'\<rparr>)
            (acc @ map mid (take ?ps (drop ?off ?hits)))
            (log_call (MessagesList \<lparr>req_q = q, req_pageToken = tok\<rparr>) w) =
          Some (Inr ((acc @ map mid (take ?ps (drop ?off ?hits))) @ map mid (drop (?off + ?ps) ?hits)),
                (log_call (MessagesList \<lparr>req_q = q, req_pageToken = tok\<rparr>) w)
                  \<lparr>calls := calls w @ [MessagesList \<lparr>req_q = q, req_pageToken = tok\<rparr>] @
                              map MessagesList (search_requests q ?ps (length ?hits) ?tok')\<rparr>)"
      using Suc.prems reqs by (intro Suc.IH [THEN trans]) (auto simp: page_offset_def)
    moreover have "map mid (take ?ps (drop ?off ?hits)) @ map mid (drop (?off + ?ps) ?hits) =
                   map mid (drop ?off ?hits)"
      by (metis map_append take_drop_concat_step)
    moreover have "search_loop (Suc n) svc (Some \<lparr>req_q = q, req_pageToken = tok\<rparr>) acc w =
        search_loop n svc (Some \<lparr>req_q = q, req_pageToken = ?tok'\<rparr>)
          (acc @ map mid (take ?ps (drop ?off ?hits)))
          (log_call (MessagesList \<lparr>req_q = q, req_pageToken = tok\<rparr>) w)"
      using search_loop_step [OF ok, of n q tok acc] True by simp
    ultimately show ?thesis
      using reqs by (simp add: log_call_def)
  next
    case False
    then have reqs: "search_requests q ?ps (length ?hits) tok = [\<lparr>req_q = q, req_pageToken = tok\<rparr>]"
      by (rule search_requests_last)
    with Suc.prems(3) obtain m where n: "n = Suc m" by (cases n) auto
    from False have "drop ?off ?hits = take ?ps (drop ?off ?hits)" by simp
    moreover have "search_loop (Suc n) svc (Some \<lparr>req_q = q, req_pageToken = tok\<rparr>) acc w =
        search_loop n svc None (acc @ map mid (take ?ps (drop ?off ?hits)))
          (log_call (MessagesList \<lparr>req_q = q, req_pageToken = tok\<rparr>) w)"
      using search_loop_step [OF ok, of n q tok acc] False by simp
    ultimately show ?thesis
      using reqs n by (simp add: log_call_def)
  qed
qed

lemma search_loop_terminates:
  assumes "0 < page_size w"
      and "length (search_requests q (page_size w) (length (index w q)) tok) < n"
  shows "\<exists>r. search_loop n svc (Some \<lparr>req_q = q, req_pageToken = tok\<rparr>) acc w = Some r"
  using assms
proof (induction n arbitrary: tok acc w)
  case 0
  then show ?case by simp
next
  case (Suc n)
  let ?hits = "index w q" and ?ps = "page_size w" and ?off = "page_offset tok"
  show ?case
  proof (cases "request_error svc w")
    case (Some code)
    then show ?thesis by (simp add: search_loop_refused)
  next
    case None
    show ?thesis
    proof (cases "?off + ?ps < length ?hits")
      case True
      let ?tok' = "Some (PageToken (?off + ?ps))"
      have "search_requests q ?ps (length ?hits) tok =
              \<lparr>req_q = q, req_pageToken = tok\<rparr> # search_requests q ?ps (length ?hits) ?tok'"
        using Suc.prems(1) True by (rule search_requests_more)
      then have "\<exists>r. search_loop n svc (Some \<lparr>req_q = q, req_pageToken = ?tok'\<rparr>)
                    (acc @ map mid (take ?ps (drop ?off ?hits)))
                    (log_call (MessagesList \<lparr>req_q = q, req_pageToken = tok\<rparr>) w) = Some r"
        using Suc.prems by (intro Suc.IH) simp_all
      with search_loop_step [OF None, of n q tok acc] True show ?thesis by simp
    next
      case False
      then have "search_requests q ?ps (length ?hits) tok = [\<lparr>req_q = q, req_pageToken = tok\<rparr>]"
        by (rule search_requests_last)
      with Suc.prems(2) obtain m where "n = Suc m" by (cases n) auto
      with search_loop_step [OF None, of n q tok acc] False show ?thesis by simp
    qed
  qed
qed

lemma search_loop_fault:
  assumes "0 < page_size w" and "authorized svc"
      and "j < length (search_requests q (page_size w) (length (index w q)) tok)"
      and "\<forall>k<j. length (calls w) + k \<notin> faults w" and "length (calls w) + j \<in> faults w"
      and "length (search_requests q (page_size w) (length (index w q)) tok) < n"
  shows "search_loop n svc (Some \<lparr>req_q = q, req_pageToken = tok\<rparr>) acc w =
           Some (Inl (HttpError 503 (MessagesList
                   (search_requests q (page_size w) (length (index w q)) tok ! j))),
                 w\<lparr>calls := calls w @ map MessagesList
                      (take (Suc j) (search_requests q (page_size w) (length (index w q)) tok))\<rparr>)"
  using assms(1,3-6)
proof (induction j arbitrary: n tok acc w)
  case 0
  then obtain m where n: "n = Suc m" by (cases n) auto
  from 0 have "request_error svc w = Some 503"
    using assms(2) by (simp add: request_error_fault)
  with n show ?case by (simp add: search_loop_refused search_requests_def log_call_def)
next
  case (Suc j)
  let ?hits = "index w q" and ?ps = "page_size w" and ?off = "page_offset tok"
  have ok: "request_error svc w = None"
    using assms(2) Suc.prems(3) by (auto simp: request_error_None_iff dest: spec [of _ 0])
  have more: "?off + ?ps < length ?hits"
  proof (rule ccontr)
    assume "\<not> ?off + ?ps < length ?hits"
    then have "search_requests q ?ps (length ?hits) tok = [\<lparr>req_q = q, req_pageToken = tok\<rparr>]"
      by (rule search_requests_last)
    with Suc.prems(2) show False by simp
  qed
  let ?tok' = "Some (PageToken (?off + ?ps))"
  have reqs: "search_requests q ?ps (length ?hits) tok =
                \<lparr>req_q = q, req_pageToken = tok\<rparr> # search_requests q ?ps (length ?hits) ?tok'"
    using Suc.prems(1) more by (rule search_requests_more)
  obtain m where n: "n = Suc m"
    using Suc.prems(5) by (cases n) auto
  have "search_loop m svc (Some \<lparr>req_q = q, req_pageToken = ?tok'\<rparr>)
          (acc @ map mid (take ?ps (drop ?off ?hits)))
          (log_call (MessagesList \<lparr>req_q = q, req_pageToken = tok\<rparr>) w) =
        Some (Inl (HttpError 503 (MessagesList (search_requests q ?ps (length ?hits) ?tok' ! j))),
              (log_call (MessagesList \<lparr>req_q = q, req_pageToken = tok\<rparr>) w)
                \<lparr>calls := calls w @ [MessagesList \<lparr>req_q = q, req_pageToken = tok\<rparr>] @
                   map MessagesList (take (Suc j) (search_requests q ?ps (length ?hits) ?tok'))\<rparr>)"
    using Suc.prems reqs n by (intro Suc.IH [THEN trans]) (auto simp: log_call_def)
  moreover have "search_loop n svc (Some \<lparr>req_q = q, req_pageToken = tok\<rparr>) acc w =
      search_loop m svc (Some \<lparr>req_q = q, req_pageToken = ?tok'\<rparr>)
        (acc @ map mid (take ?ps (drop ?off ?hits)))
        (log_call (MessagesList \<lparr>req_q = q, req_pageToken = tok\<rparr>) w)"
    using search_loop_step [OF ok, of m q tok acc] more n by simp
  ultimately show ?case
    using reqs by (simp add: log_call_def)
qed

lemma search_loop_diverges:
  assumes "page_size w = 0" and "authorized svc" and "faults w = {}"
      and "page_offset tok < length (index w q)"
  shows "search_loop n svc (Some \<lparr>req_q = q, req_pageToken = tok\<rparr>) acc w = None"
  using assms(1,3,4)
proof (induction n arbitrary: tok acc w)
  case 0
  then show ?case by simp
next
  case (Suc n)
  have ok: "request_error svc w = None"
    using assms(2) Suc.prems(2) by (simp add: request_error_None_iff)
  have "search_loop n svc (Some \<lparr>req_q = q, req_pageToken = Some (PageToken (page_offset tok))\<rparr>)
          (acc @ map mid (take 0 (drop (page_offset tok) (index w q))))
          (log_call (MessagesList \<lparr>req_q = q, req_pageToken = tok\<rparr>) w) = None"
    using Suc.prems by (intro Suc.IH) (simp_all add: page_offset_def)
  with search_loop_step [OF ok, of n q tok acc] Suc.prems(1,3) show ?case by simp
qed

lemma length_search_requests_le:
  "0 < ps \<Longrightarrow> length (search_requests q ps len tok) \<le> Suc len"
  using length_py_range_le [of ps "page_offset tok + ps" len] by (simp add: search_requests_def)

lemma search_fuel_enough:
  assumes "0 < page_size w" and "length (index w q) + 2 \<le> fuel"
  shows "length (search_requests q (page_size w) (length (index w q)) tok) < fuel"
proof -
  have "length (search_requests q (page_size w) (length (index w q)) tok) \<le> Suc (length (index w q))"
    using assms(1) by (rule length_search_requests_le)
  with assms(2) show ?thesis by linarith
qed

lemma search_messages_loop:
  "search_loop fuel svc (Some (list_request_for query)) [] w = Some (Inr ms, w') \<Longrightarrow>
     search_messages fuel svc query w = Some (Inr ms, print_event (FoundMessages (length ms)) w')"
  "search_loop fuel svc (Some (list_request_for query)) [] w = Some (Inl e, w') \<Longrightarrow>
     search_messages fuel svc query w = Some (Inl e, w')"
  "search_loop fuel svc (Some (list_request_for query)) [] w = None \<Longrightarrow>
     search_messages fuel svc query w = None"
  by (simp_all add: search_messages_def)

lemma search_loop_world:
  "search_loop n svc rq acc w = Some (r, w') \<Longrightarrow> \<exists>xs. w' = w\<lparr>calls := calls w @ xs\<rparr>"
proof (induction n arbitrary: rq acc w)
  case 0
  then show ?case by simp
next
  case (Suc n)
  show ?case
  proof (cases rq)
    case None
    with Suc.prems show ?thesis by (intro exI [of _ "[]"]) simp
  next
    case (Some q)
    obtain res w1 where ml: "messages_list svc q w = (res, w1)" by fastforce
    have w1: "w1 = log_call (MessagesList q) w"
      using messages_list_world [of svc q w] ml by simp
    show ?thesis
    proof (cases res)
      case (Inl e)
      with Suc.prems Some ml w1 show ?thesis
        by (intro exI [of _ "[MessagesList q]"]) (simp add: search_loop.simps(3) log_call_def)
    next
      case (Inr resp)
      with Suc.prems Some ml obtain xs where
        "w' = w1\<lparr>calls := calls w1 @ xs\<rparr>"
        using Suc.IH by (fastforce simp: search_loop.simps(3))
      with w1 show ?thesis
        by (intro exI [of _ "MessagesList q # xs"]) (simp add: log_call_def)
    qed
  qed
qed

lemma search_messages_frame [frame_simps]:
  assumes "search_messages fuel svc query w = Some (r, w')"
  shows "labels w' = labels w \<and> mailbox w' = mailbox w \<and> index w' = index w \<and>
         page_size w' = page_size w \<and> faults w' = faults w \<and> token_file w' = token_file w \<and>
         next_label w' = next_label w"
proof -
  obtain r0 w0 where loop: "search_loop fuel svc (Some (list_request_for query)) [] w = Some (r0, w0)"
    and w': "w' = w0 \<or> w' = print_event (FoundMessages (length (projr r0))) w0"
    using assms by (auto simp: search_messages_def split: option.splits sum.splits)
  from search_loop_world [OF loop] obtain xs where "w0 = w\<lparr>calls := calls w @ xs\<rparr>" by blast
  with w' show ?thesis by auto
qed

lemma search_loop_Inr:
  "search_loop n svc (Some \<lparr>req_q = q, req_pageToken = tok\<rparr>) acc w = Some (Inr ms, w') \<Longrightarrow>
     ms = acc @ map mid (drop (page_offset tok) (index w q))"
proof (induction n arbitrary: tok acc w)
  case 0
  then show ?case by simp
next
  case (Suc n)
  let ?hits = "index w q" and ?ps = "page_size w" and ?off = "page_offset tok"
  have ok: "request_error svc w = None"
    using Suc.prems by (cases "request_error svc w") (simp_all add: search_loop_refused)
  note step = search_loop_step [OF ok, of n q tok acc]
  show ?case
  proof (cases "?off + ?ps < length ?hits")
    case True
    with step Suc.prems have "search_loop n svc
        (Some \<lparr>req_q = q, req_pageToken = Some (PageToken (?off + ?ps))\<rparr>)
        (acc @ map mid (take ?ps (drop ?off ?hits)))
        (log_call (MessagesList \<lparr>req_q = q, req_pageToken = tok\<rparr>) w) = Some (Inr ms, w')"
      by simp
    then have "ms = (acc @ map mid (take ?ps (drop ?off ?hits))) @ map mid (drop (?off + ?ps) ?hits)"
      by (auto dest: Suc.IH simp: page_offset_def)
    moreover have "map mid (take ?ps (drop ?off ?hits)) @ map mid (drop (?off + ?ps) ?hits) =
                   map mid (drop ?off ?hits)"
      by (metis map_append take_drop_concat_step)
    ultimately show ?thesis by simp
  next
    case False
    with step Suc.prems have "search_loop n svc None (acc @ map mid (take ?ps (drop ?off ?hits)))
        (log_call (MessagesList \<lparr>req_q = q, req_pageToken = tok\<rparr>) w) = Some (Inr ms, w')"
      by simp
    then have "ms = acc @ map mid (take ?ps (drop ?off ?hits))"
      by (cases n) simp_all
    with False show ?thesis by simp
  qed
qed

lemma search_messages_Inr:
  "search_messages fuel svc query w = Some (Inr ms, w') \<Longrightarrow> ms = map mid (index w query)"
  using search_loop_Inr [of fuel svc query None "[]" w ms]
  by (auto simp: search_messages_def list_request_for_def page_offset_def split: option.splits sum.splits)

lemma search_messages_eq:
  assumes "0 < page_size w" and "authorized svc"
      and "\<forall>k<length (search_requests query (page_size w) (length (index w query)) None).
             length (calls w) + k \<notin> faults w"
      and "length (index w query) + 2 \<le> fuel"
  shows "search_messages fuel svc query w =
           Some (Inr (map mid (index w query)),
                 w\<lparr>calls := calls w @ map MessagesList
                                 (search_requests query (page_size w) (length (index w query)) None),
                   out := out w @ [FoundMessages (length (index w query))]\<rparr>)"
proof -
  have "length (search_requests query (page_size w) (length (index w query)) None) < fuel"
    using assms(1,4) by (rule search_fuel_enough)
  from search_loop_ok [OF assms(1,2,3) this, of "[]"] show ?thesis
    by (simp add: search_messages_loop list_request_for_def page_offset_def print_event_def)
qed

section \<open>Properties of search_messages\<close>

lemma search_loop_Inr_calls:
  "search_loop n svc (Some \<lparr>req_q = q, req_pageToken = tok\<rparr>) acc w = Some (Inr ms, w') \<Longrightarrow>
     0 < page_size w \<Longrightarrow>
     calls w' = calls w @ map MessagesList (search_requests q (page_size w) (length (index w q)) tok)"
proof (induction n arbitrary: tok acc w)
  case 0
  then show ?case by simp
next
  case (Suc n)
  let ?hits = "index w q" and ?ps = "page_size w" and ?off = "page_offset tok"
  let ?w1 = "log_call (MessagesList \<lparr>req_q = q, req_pageToken = tok\<rparr>) w"
  have ok: "request_error svc w = None"
    using Suc.prems by (cases "request_error svc w") (simp_all add: search_loop_refused)
  note step = search_loop_step [OF ok, of n q tok acc]
  show ?case
  proof (cases "?off + ?ps < length ?hits")
    case True
    with step Suc.prems have "search_loop n svc
        (Some \<lparr>req_q = q, req_pageToken = Some (PageToken (?off + ?ps))\<rparr>)
        (acc @ map mid (take ?ps (drop ?off ?hits))) ?w1 = Some (Inr ms, w')"
      by simp
    from Suc.IH [OF this] Suc.prems(2) True show ?thesis
      by (simp add: search_requests_more log_call_def)
  next
    case False
    with step Suc.prems have "search_loop n svc None (acc @ map mid (take ?ps (drop ?off ?hits))) ?w1 =
        Some (Inr ms, w')"
      by simp
    then have "w' = ?w1" by (cases n) simp_all
    with False show ?thesis by (simp add: search_requests_last log_call_def)
  qed
qed

lemma length_search_requests:
  "0 < ps \<Longrightarrow> length (search_requests q ps len None) = max 1 ((len + ps - 1) div ps)"
proof -
  assume ps: "0 < ps"
  have "Suc ((len - ps + ps - 1) div ps) = max 1 ((len + ps - 1) div ps)"
  proof (cases "ps < len")
    case True
    then have "ps \<le> len + ps - 1" by linarith
    with ps True show ?thesis using le_div_geq [of ps "len + ps - 1"] by simp
  next
    case False
    then have "len + ps - 1 < ps + ps" "ps - 1 < ps" using ps by linarith+
    then have "(len + ps - 1) div ps \<le> 1" "(ps - 1) div ps = 0"
      using less_mult_imp_div_less [of "len + ps - 1" 2 ps] by (simp_all add: div_less)
    with False show ?thesis by simp
  qed
  with ps show ?thesis
    using length_py_range [of ps ps len] by (simp add: search_requests_def page_offset_def)
qed

lemma search_messages_Inr_out:
  assumes "search_messages fuel svc query w = Some (Inr ms, w')"
  shows "out w' = out w @ [FoundMessages (length ms)]"
proof -
  obtain w0 where loop: "search_loop fuel svc (Some (list_request_for query)) [] w = Some (Inr ms, w0)"
    and w': "w' = print_event (FoundMessages (length ms)) w0"
    using assms by (auto simp: search_messages_def split: option.splits sum.splits)
  from search_loop_world [OF loop] obtain xs where "w0 = w\<lparr>calls := calls w @ xs\<rparr>" by blast
  with w' show ?thesis by (simp add: print_event_def)
qed

lemma search_loop_Inl:
  "search_loop n svc rq acc w = Some (Inl e, w') \<Longrightarrow> \<exists>code q. e = HttpError code (MessagesList q)"
proof (induction n arbitrary: rq acc w)
  case 0
  then show ?case by simp
next
  case (Suc n)
  then show ?case
    by (cases rq) (auto simp: search_loop.simps(3) messages_list_def Let_def split: option.splits sum.splits)
qed

lemma search_messages_Inl:
  "search_messages fuel svc query w = Some (Inl e, w') \<Longrightarrow> \<exists>code q. e = HttpError code (MessagesList q)"
  by (auto simp: search_messages_def dest: search_loop_Inl split: option.splits sum.splits)

lemma search_messages_Inr_calls:
  assumes "search_messages fuel svc query w = Some (Inr ms, w')" and "0 < page_size w"
  shows "calls w' = calls w @ map MessagesList (search_requests query (page_size w) (length (index w query)) None)"
proof -
  obtain w0 where loop: "search_loop fuel svc (Some (list_request_for query)) [] w = Some (Inr ms, w0)"
    and w': "w' = print_event (FoundMessages (length ms)) w0"
    using assms(1) by (auto simp: search_messages_def split: option.splits sum.splits)
  from search_loop_Inr_calls [OF loop [unfolded list_request_for_def] assms(2)] w'
  show ?thesis by simp
qed

lemma search_messages_returns:
  assumes "0 < page_size w" and "length (index w query) + 2 \<le> fuel"
  shows "\<exists>r. search_messages fuel svc query w = Some r"
proof -
  have "length (search_requests query (page_size w) (length (index w query)) None) < fuel"
    using assms(1,2) by (rule search_fuel_enough)
  from search_loop_terminates [OF assms(1) this, of svc "[]"]
  obtain r where "search_loop fuel svc (Some (list_request_for query)) [] w = Some r"
    by (auto simp: list_request_for_def)
  then show ?thesis
    by (cases r) (auto simp: search_messages_def split: sum.split)
qed

text \<open>C4: when the provider pages forward and no page request fails, the
  search returns every hit of the query in the provider's order, after one
  \<open>messages.list\<close> request per page (the first without a token, each later
  one with the token of the previous page), and prints the count. The
  paginated loop thus implements the one-shot search \<open>map mid (index w q)\<close>.\<close>

theorem search_messages_ok:
  assumes "0 < page_size w" and "authorized svc"
      and "\<forall>k<length (search_requests query (page_size w) (length (index w query)) None).
             length (calls w) + k \<notin> faults w"
      and "length (index w query) + 2 \<le> fuel"
  shows "search_messages fuel svc query w =
           Some (Inr (map mid (index w query)),
                 w\<lparr>calls := calls w @ map MessagesList
                                 (search_requests query (page_size w) (length (index w query)) None),
                   out := out w @ [FoundMessages (length (index w query))]\<rparr>)"
  using assms by (rule search_messages_eq)

theorem search_messages_ok_witness:
  "search_messages 7 modify_cred ''in:inbox'' paged_world =
     Some (Inr [''a'', ''b'', ''c'', ''d'', ''e''],
           paged_world\<lparr>calls := map MessagesList (search_requests ''in:inbox'' 2 5 None),
                       out := [FoundMessages 5]\<rparr>)"
  using search_messages_ok [of paged_world modify_cred "''in:inbox''" 7]
  by (simp add: model_simps numeral_eq_Suc)

text \<open>C21: the search loop ends: when the provider pages forward, fuel above
  the number of hits (plus two) is enough for the run to return, whatever
  the requests' outcomes.\<close>

theorem search_messages_terminates:
  assumes "0 < page_size w" and "length (index w query) + 2 \<le> fuel"
  shows "\<exists>r. search_messages fuel svc query w = Some r"
  using assms by (rule search_messages_returns)

theorem search_messages_terminates_witness:
  "\<exists>r. search_messages 7 modify_cred ''in:inbox'' paged_world = Some r"
  using search_messages_terminates [of paged_world "''in:inbox''" 7 modify_cred]
  by (simp add: paged_world_def base_world_def)

text \<open>C22: a page request that fails ends the search with that request's
  error: the identifiers collected so far are discarded, no count is printed,
  and no later page is requested.\<close>

theorem search_messages_fault:
  assumes "0 < page_size w" and "authorized svc"
      and "j < length (search_requests query (page_size w) (length (index w query)) None)"
      and "\<forall>k<j. length (calls w) + k \<notin> faults w" and "length (calls w) + j \<in> faults w"
      and "length (index w query) + 2 \<le> fuel"
  shows "search_messages fuel svc query w =
           Some (Inl (HttpError 503 (MessagesList
                   (search_requests query (page_size w) (length (index w query)) None ! j))),
                 w\<lparr>calls := calls w @ map MessagesList
                      (take (Suc j) (search_requests query (page_size w) (length (index w query)) None))\<rparr>)"
proof -
  have "length (search_requests query (page_size w) (length (index w query)) None) < fuel"
    using assms(1,6) by (rule search_fuel_enough)
  from search_loop_fault [OF assms(1-5) this, of "[]"] show ?thesis
    by (simp add: search_messages_loop list_request_for_def)
qed

theorem search_messages_fault_witness:
  "map_option fst (search_messages 7 modify_cred ''in:inbox'' (paged_world\<lparr>faults := {1}\<rparr>)) =
     Some (Inl (HttpError 503 (MessagesList \<lparr>req_q = ''in:inbox'', req_pageToken = Some (PageToken 2)\<rparr>)))"
  using search_messages_fault [of "paged_world\<lparr>faults := {1}\<rparr>" modify_cred 1 "''in:inbox''" 7]
  by (simp add: model_simps numeral_eq_Suc)

text \<open>C23: the loop has no bound of its own: against a provider that never
  advances (page size 0, so every response repeats the page token), the
  search does not return for any amount of fuel.\<close>

theorem search_messages_diverges:
  assumes "page_size w = 0" and "authorized svc" and "faults w = {}"
      and "index w query \<noteq> []"
  shows "search_messages fuel svc query w = None"
  using search_loop_diverges [OF assms(1-3), of None query fuel "[]"] assms(4)
  by (simp add: search_messages_loop list_request_for_def page_offset_def)

theorem search_messages_diverges_witness:
  "search_messages 7 modify_cred ''in:inbox'' (paged_world\<lparr>page_size := 0\<rparr>) = None"
  using search_messages_diverges [of "paged_world\<lparr>page_size := 0\<rparr>" modify_cred "''in:inbox''" 7]
  by (simp add: model_simps)

text \<open>C14: a successful search with page size \<open>ps\<close> sends exactly
  \<open>max 1 (ceil(n / ps))\<close> list requests for \<open>n\<close> hits: the first request, then
  one per page token the provider returns.\<close>

theorem search_messages_page_count:
  assumes "search_messages fuel svc query w = Some (Inr ms, w')" and "0 < page_size w"
  shows "length (calls w') = length (calls w) + max 1 ((length ms + page_size w - 1) div page_size w)"
proof -
  obtain w0 where loop: "search_loop fuel svc (Some (list_request_for query)) [] w = Some (Inr ms, w0)"
    and w': "w' = print_event (FoundMessages (length ms)) w0"
    using assms(1) by (auto simp: search_messages_def split: option.splits sum.splits)
  have "calls w0 = calls w @ map MessagesList
          (search_requests query (page_size w) (length (index w query)) None)"
    using search_loop_Inr_calls [OF loop [unfolded list_request_for_def] assms(2)] .
  moreover have "length ms = length (index w query)"
    using search_messages_Inr [OF assms(1)] by simp
  ultimately show ?thesis
    using w' length_search_requests [OF assms(2)] by simp
qed

theorem search_messages_page_count_witness:
  "\<exists>ms w'. search_messages 7 modify_cred ''in:inbox'' paged_world = Some (Inr ms, w') \<and>
     0 < page_size paged_world \<and> length (calls w') = 3"
proof -
  have run: "\<exists>ms w'. search_messages 7 modify_cred ''in:inbox'' paged_world = Some (Inr ms, w') \<and>
     length ms = 5"
    by (simp add: model_simps numeral_eq_Suc)
  then obtain ms w' where r: "search_messages 7 modify_cred ''in:inbox'' paged_world = Some (Inr ms, w')"
    and "length ms = 5" by blast
  moreover have "0 < page_size paged_world" "calls paged_world = []" "page_size paged_world = 2"
    by (simp_all add: model_simps)
  ultimately show ?thesis
    using search_messages_page_count [OF r] by auto
qed

end
