(* ===== verification/Console.thy ===== *)
theory Console
  imports Gmail_Api
begin

text \<open>
  The script's console output. The model records each \<open>print\<close> call as an
  \<open>event\<close> in the world's \<open>out\<close> list; this theory renders every event as the
  line the f-string of src/label_rejections.py produces (lines 46, 60, 83, 90,
  105 and 135), with Python's \<open>str()\<close> of an int as \<open>dec_string\<close>; the
  console lines of a world are its events rendered in order. The claims about
  what a run prints are stated over these lines in the root theory.
\<close>

definition squote :: string where
  "squote = [CHR 0x27]"

definition found_label_text :: "string \<Rightarrow> label_id \<Rightarrow> string" where
  "found_label_text label_name i =
     ''Found existing label '' @ squote @ label_name @ squote @ '' with ID: '' @ i"

definition created_label_text :: "string \<Rightarrow> label_id \<Rightarrow> string" where
  "created_label_text label_name i =
     ''Created label '' @ squote @ label_name @ squote @ '' with ID: '' @ i"

definition found_messages_text :: "nat \<Rightarrow> string" where
  "found_messages_text n = ''Found '' @ dec_string n @ '' messages matching the query.''"

definition no_messages_text :: string where
  "no_messages_text = ''No messages to label.''"

definition labeled_batch_text :: "nat \<Rightarrow> string" where
  "labeled_batch_text n = ''Labeled '' @ dec_string n @ '' messages in this batch.''"

definition done_text :: string where
  "done_text = ''Done! All matching emails have been labeled as '' @ squote @ ''rejections'' @ squote @ ''.''"

primrec event_text :: "event \<Rightarrow> string" where
  "event_text (FoundLabel n i) = found_label_text n i"
| "event_text (CreatedLabel n i) = created_label_text n i"
| "event_text (FoundMessages n) = found_messages_text n"
| "event_text NoMessagesToLabel = no_messages_text"
| "event_text (LabeledBatch n) = labeled_batch_text n"
| "event_text DoneMessage = done_text"

definition console_lines :: "world \<Rightarrow> string list" where
  "console_lines w = map event_text (out w)"

declare squote_def [model_simps] found_label_text_def [model_simps]
  created_label_text_def [model_simps] found_messages_text_def [model_simps]
  no_messages_text_def [model_simps] labeled_batch_text_def [model_simps] done_text_def [model_simps]
  console_lines_def [model_simps]

lemma console_lines_print_event [simp]:
  "console_lines (print_event e w) = console_lines w @ [event_text e]"
  by (simp add: console_lines_def)

end
