(* ===== verification/Spec2Isabelle.thy ===== *)
theory Spec2Isabelle
  imports Auth Labels Batch Search Console
begin

text \<open>
  A verification development for \<open>src/label_rejections.py\<close>, a script that
  signs in to Gmail, makes sure a label \<open>rejections\<close> exists, searches the
  inbox for likely rejection emails, and adds the label to every hit in
  batches of at most 1000.

  \<^bold>\<open>Theories.\<close>
  \<^item> \<open>Prelude\<close>: the collections \<open>model_simps\<close> (equations that evaluate the
    model on concrete inputs) and \<open>frame_simps\<close>; Python's \<open>str.lower\<close>
    (\<open>lower\<close>), exact on every character Isabelle's \<open>char\<close> holds (code
    points 0--255: \<open>A\<close>--\<open>Z\<close> and the Latin-1 capitals other than 215 are
    lowered by 32); Python's \<open>range\<close> with a positive step; a decimal rendering
    \<open>dec_string\<close> with its parse round trip, used for fresh label identifiers.
  \<^item> \<open>Gmail_Api\<close>: the environment, modelled from the spec: the credential
    and \<open>token.json\<close>, the Gmail resources as records, the requests
    \<open>labels_list\<close>, \<open>labels_create\<close>, \<open>messages_list\<close>, \<open>batch_modify\<close> over
    a \<open>world\<close> record that also logs every request (\<open>calls\<close>) and every
    console line (\<open>out\<close>). A request fails with HTTP 403 without the
    \<open>gmail.modify\<close> scope, with 503 when its position in the request sequence
    is in \<open>faults\<close>, with 409 when a created label's name conflicts up to
    case, and with 400 when a batch exceeds 1000 identifiers or names an unknown
    label. These guarantees belong to Gmail, not to the script, and no claim of
    the development rests on them alone.
  \<^item> \<open>Labels\<close>: \<open>get_or_create_label\<close> (lines 39--61) with the scan
    \<open>find_label\<close>: case-insensitive matching of the first label, creation with
    the body of lines 50--54, idempotence of a second resolution.
  \<^item> \<open>Batch\<close>: \<open>add_label_to_messages\<close> (lines 87--105): the chunking by
    \<open>range(0, len, 1000)\<close> and slices (\<open>py_range\<close>, \<open>py_slice\<close>), the loop
    \<open>batch_loop\<close> that stops at the first refused request. The slices are shown
    equal to a reference chunking \<open>chunks\<close>; every request sent carries 1 to
    1000 identifiers; exactly \<open>ceil(n / 1000)\<close> requests go out on success; a
    failure at chunk j leaves exactly the first j chunks applied.
  \<^item> \<open>Search\<close>: \<open>search_messages\<close> (lines 64--84): the pagination loop
    \<open>search_loop\<close> with fuel. It refines a one-shot search (all hits of the
    query, in order, with the page requests \<open>search_requests\<close> logged), sends
    exactly \<open>max 1 (ceil(n / ps))\<close> page requests, terminates when the provider
    pages forward, stops at the first refused page, and never returns when the
    provider repeats a page token.
  \<^item> \<open>Auth\<close>: \<open>get_gmail_service\<close> (lines 14--36): loading \<open>token.json\<close>
    (which fails when the saved JSON has no refresh token, as
    \<open>from_authorized_user_file\<close> does), reuse of a valid credential, refresh
    of an expired one with a truthy refresh token, the interactive flow
    otherwise, and the write-back to \<open>token.json\<close>.
  \<^item> \<open>Console\<close>: the text of every \<open>print\<close> call (lines 46, 60, 83, 90,
    105, 135) as a rendering \<open>event_text\<close> of the events the operations record.
  \<^item> This theory: \<open>main\<close> (lines 108--135), the spec's stage machine
    \<open>pipeline_step\<close> as a specification that \<open>main\<close> refines, and the spec's
    error taxonomy \<open>failure_kind_of\<close>.

  \<^bold>\<open>Correspondence.\<close> Every function of the script takes the world and
  returns its result as \<open>error + 'a\<close> (\<open>Inl\<close>: the exception that would
  propagate) together with the world after the call, so that effects before a
  failure stay visible, as they do in the running program. Python names are
  kept: \<open>get_gmail_service\<close>, \<open>get_or_create_label\<close>, \<open>search_messages\<close>,
  \<open>add_label_to_messages\<close>, \<open>main\<close>, \<open>SCOPES\<close>; the API's request objects
  (\<open>service.users().labels().list(...)\<close> and so on) are the requests of
  \<open>Gmail_Api\<close>.

  \<^bold>\<open>Properties of the whole run.\<close> With the right scope, no failures and
  enough fuel, a run labels exactly the hits of the query with the id of the
  label named \<open>rejections\<close> up to case, reusing an existing such label rather
  than creating one; \<open>main\<close> refines the stage machine (every returning run is
  a path to Done, or to Failed with its error); a completed run sends its
  requests in the code's order and prints the label line, the count found,
  one line per batch and the done line; a second run changes nothing. Every
  failed run raises an error of one of the spec's four kinds, with the effect
  the spec describes for it; a stored credential without the modify scope is
  never re-consented and makes the run fail at its first request.

  \<^bold>\<open>Fuel.\<close> Only the pagination loop needs fuel; \<open>None\<close> is "still
  running". The provider model serves \<open>page_size\<close> hits per page; with a
  positive page size a query with \<open>len\<close> hits takes at most \<open>len + 1\<close> page
  requests, and one more unit of fuel observes the absent page token, so
  \<open>len + 2\<close> suffices, and the results are stated for every fuel at or above
  it. With page size 0 the provider repeats the same page token and the loop
  never returns, for any fuel. The witnesses use 10.

  \<^bold>\<open>Not modelled.\<close> The HTTP transport and the JSON encoding of requests
  and responses (the model keeps their fields, and of \<open>token.json\<close> only the
  fact that a missing refresh token fails to load), \<open>build()\<close>'s discovery
  document, the browser interaction of \<open>run_local_server\<close> (its outcome is the
  world's \<open>consent\<close>), the clock (a credential's expiry is the flag
  \<open>expired\<close>), the internals of google-auth and googleapiclient, and strings
  with code points above 255, which Isabelle's \<open>char\<close> cannot hold.
\<close>

section \<open>The orchestrator\<close>

text \<open>\<open>main\<close> (lines 108--135). The query is the concatenation of the adjacent
  string literals of lines 117--126, as Python joins them. The fuel is the
  search loop's (see \<open>Search\<close>); \<open>None\<close> means that loop is still running.\<close>

definition label_name :: string where
  "label_name = ''rejections''"

definition query_parts :: "string list" where
  \<open>query_parts =
     [''in:inbox ('',
      ''"we regret to inform you" OR '',
      ''"we are unable to move forward" OR '',
      ''"we have decided not to move forward" OR '',
      ''"you were not selected" OR '',
      ''"Thank you for your interest in" OR '',
      ''"Thank you for applying to"'',
      '')'']\<close>

definition rejection_query :: string where
  "rejection_query = concat query_parts"

definition main :: "nat \<Rightarrow> world \<Rightarrow> ((error + unit) \<times> world) option" where
  "main fuel w =
     (case get_gmail_service w of
        (Inl e, w1) \<Rightarrow> Some (Inl e, w1)
      | (Inr service, w1) \<Rightarrow>
          (case get_or_create_label service label_name w1 of
             (Inl e, w2) \<Rightarrow> Some (Inl e, w2)
           | (Inr label_id, w2) \<Rightarrow>
               (case search_messages fuel service rejection_query w2 of
                  None \<Rightarrow> None
                | Some (Inl e, w3) \<Rightarrow> Some (Inl e, w3)
                | Some (Inr message_ids, w3) \<Rightarrow>
                    (case add_label_to_messages service message_ids label_id w3 of
                       (Inl e, w4) \<Rightarrow> Some (Inl e, w4)
                     | (Inr _, w4) \<Rightarrow> Some (Inr (), print_event DoneMessage w4)))))"

section \<open>The pipeline as a state machine\<close>

text \<open>The spec's stages (section 4.5): Start, Authenticated, LabelResolved,
  MessagesFound, MessagesLabeled, Done, and the terminal Failed. One rule per
  component call and outcome; the search step may use any fuel.\<close>

datatype stage =
    Start
  | Authenticated credential
  | LabelResolved credential label_id
  | MessagesFound credential label_id "msg_id list"
  | MessagesLabeled
  | Done
  | Failed error

inductive pipeline_step :: "stage \<times> world \<Rightarrow> stage \<times> world \<Rightarrow> bool" where
  auth_ok: "get_gmail_service w = (Inr svc, w') \<Longrightarrow>
     pipeline_step (Start, w) (Authenticated svc, w')"
| auth_failed: "get_gmail_service w = (Inl e, w') \<Longrightarrow>
     pipeline_step (Start, w) (Failed e, w')"
| label_ok: "get_or_create_label svc label_name w = (Inr lbl, w') \<Longrightarrow>
     pipeline_step (Authenticated svc, w) (LabelResolved svc lbl, w')"
| label_failed: "get_or_create_label svc label_name w = (Inl e, w') \<Longrightarrow>
     pipeline_step (Authenticated svc, w) (Failed e, w')"
| search_ok: "search_messages fuel svc rejection_query w = Some (Inr ms, w') \<Longrightarrow>
     pipeline_step (LabelResolved svc lbl, w) (MessagesFound svc lbl ms, w')"
| search_failed: "search_messages fuel svc rejection_query w = Some (Inl e, w') \<Longrightarrow>
     pipeline_step (LabelResolved svc lbl, w) (Failed e, w')"
| batch_ok: "add_label_to_messages svc ms lbl w = (Inr (), w') \<Longrightarrow>
     pipeline_step (MessagesFound svc lbl ms, w) (MessagesLabeled, w')"
| batch_failed: "add_label_to_messages svc ms lbl w = (Inl e, w') \<Longrightarrow>
     pipeline_step (MessagesFound svc lbl ms, w) (Failed e, w')"
| finish: "pipeline_step (MessagesLabeled, w) (Done, print_event DoneMessage w)"

definition outcome_stage :: "error + unit \<Rightarrow> stage" where
  "outcome_stage r = (case r of Inl e \<Rightarrow> Failed e | Inr _ \<Rightarrow> Done)"

definition scenario_world :: world where
  "scenario_world = rej_world\<lparr>index := (\<lambda>q. if q = rejection_query then index rej_world q else [])\<rparr>"

text \<open>The spec's error taxonomy (section 5): every error a run can raise
  belongs to the stage that raised it.\<close>

datatype failure_kind =
    AuthenticationFailure | LabelLookupFailure | SearchFailure | LabelApplyFailure

fun failure_kind_of :: "error \<Rightarrow> failure_kind" where
  "failure_kind_of (HttpError _ LabelsList) = LabelLookupFailure"
| "failure_kind_of (HttpError _ (LabelsCreate _)) = LabelLookupFailure"
| "failure_kind_of (HttpError _ (MessagesList _)) = SearchFailure"
| "failure_kind_of (HttpError _ (BatchModify _)) = LabelApplyFailure"
| "failure_kind_of _ = AuthenticationFailure"

text \<open>Fixture: the scenario with the third request of the run (the first
  batchModify) failing with 503.\<close>

definition batch_fault_world :: world where
  "batch_fault_world = scenario_world\<lparr>faults := {2}\<rparr>"

declare label_name_def [model_simps] query_parts_def [model_simps] rejection_query_def [model_simps] batch_fault_world_def [model_simps]
  main_def [model_simps] outcome_stage_def [model_simps] scenario_world_def [model_simps]


section \<open>Decomposing a run\<close>

lemma main_Some:
  assumes "main fuel w = Some (r, w')"
  obtains (auth_failed) e where "get_gmail_service w = (Inl e, w')" and "r = Inl e"
  | (label_failed) svc w1 e where "get_gmail_service w = (Inr svc, w1)"
      and "get_or_create_label svc label_name w1 = (Inl e, w')" and "r = Inl e"
  | (search_failed) svc w1 lbl w2 e where "get_gmail_service w = (Inr svc, w1)"
      and "get_or_create_label svc label_name w1 = (Inr lbl, w2)"
      and "search_messages fuel svc rejection_query w2 = Some (Inl e, w')" and "r = Inl e"
  | (batch_failed) svc w1 lbl w2 ms w3 e where "get_gmail_service w = (Inr svc, w1)"
      and "get_or_create_label svc label_name w1 = (Inr lbl, w2)"
      and "search_messages fuel svc rejection_query w2 = Some (Inr ms, w3)"
      and "add_label_to_messages svc ms lbl w3 = (Inl e, w')" and "r = Inl e"
  | (completed) svc w1 lbl w2 ms w3 w4 where "get_gmail_service w = (Inr svc, w1)"
      and "get_or_create_label svc label_name w1 = (Inr lbl, w2)"
      and "search_messages fuel svc rejection_query w2 = Some (Inr ms, w3)"
      and "add_label_to_messages svc ms lbl w3 = (Inr (), w4)"
      and "r = Inr ()" and "w' = print_event DoneMessage w4"
proof -
  obtain r1 w1 where a: "get_gmail_service w = (r1, w1)" by fastforce
  show ?thesis
  proof (cases r1)
    case (Inl e)
    with a assms show ?thesis by (intro that(1) [of e]) (simp_all add: main_def)
  next
    case (Inr svc)
    obtain r2 w2 where l: "get_or_create_label svc label_name w1 = (r2, w2)" by fastforce
    show ?thesis
    proof (cases r2)
      case (Inl e)
      with a l Inr assms show ?thesis by (intro that(2) [of svc w1 e]) (simp_all add: main_def)
    next
      case lbl: (Inr lbl)
      obtain res where sr: "search_messages fuel svc rejection_query w2 = res" by simp
      show ?thesis
      proof (cases res)
        case None
        with a l Inr lbl sr assms show ?thesis by (simp add: main_def)
      next
        case (Some p3)
        obtain r3 w3 where p3: "p3 = (r3, w3)" by fastforce
        show ?thesis
        proof (cases r3)
          case (Inl e)
          with a l Inr lbl sr Some p3 assms show ?thesis
            by (intro that(3) [of svc w1 lbl w2 e]) (simp_all add: main_def)
        next
          case ms: (Inr ms)
          obtain r4 w4 where b: "add_label_to_messages svc ms lbl w3 = (r4, w4)" by fastforce
          show ?thesis
          proof (cases r4)
            case (Inl e)
            with a l Inr lbl sr Some p3 ms b assms show ?thesis
              by (intro that(4) [of svc w1 lbl w2 ms w3 e]) (simp_all add: main_def)
          next
            case (Inr u)
            with a l \<open>r1 = Inr svc\<close> lbl sr Some p3 ms b assms show ?thesis
              by (intro that(5) [of svc w1 lbl w2 ms w3 w4]) (simp_all add: main_def)
          qed
        qed
      qed
    qed
  qed
qed

lemma main_ten:
  "main 10 w = main (Suc (Suc (Suc (Suc (Suc (Suc (Suc (Suc (Suc (Suc 0)))))))))) w"
  by (simp add: numeral_eq_Suc)

lemma scenario_completes:
  "\<exists>w1 w2. main 10 scenario_world = Some (Inr (), w1) \<and> main 10 w1 = Some (Inr (), w2)"
  unfolding main_ten by (simp add: model_simps)

lemma main_completes:
  assumes "get_gmail_service w = (Inr svc, w1)" and "authorized svc" and "faults w = {}"
      and "0 < page_size w" and "length (index w rejection_query) + 2 \<le> fuel"
  shows "\<exists>l w4. main fuel w = Some (Inr (), print_event DoneMessage w4) \<and>
           find_label label_name (labels w4) = Some l \<and>
           mailbox w4 = label_all (lid l) (map mid (index w rejection_query)) (mailbox w) \<and>
           FoundMessages (length (index w rejection_query)) \<in> set (out w4)"
proof -
  note fr1 = get_gmail_service_frame [OF assms(1)]
  have ok1: "request_error svc w1 = None" "request_error svc (log_call LabelsList w1) = None"
    using assms(2,3) fr1 by (simp_all add: request_error_None_iff)
  obtain l w2 where l: "get_or_create_label svc label_name w1 = (Inr (lid l), w2)"
    and fl: "find_label label_name (labels w2) = Some l"
    using get_or_create_label_succeeds [OF ok1] by blast
  note fr2 = get_or_create_label_frame [OF l]
  let ?hits = "index w rejection_query"
  have s: "search_messages fuel svc rejection_query w2 =
      Some (Inr (map mid ?hits),
            w2\<lparr>calls := calls w2 @ map MessagesList
                     (search_requests rejection_query (page_size w2) (length (index w2 rejection_query)) None),
               out := out w2 @ [FoundMessages (length ?hits)]\<rparr>)"
    using search_messages_eq [of w2 svc rejection_query fuel] assms fr1 fr2 by simp
  let ?w3 = "w2\<lparr>calls := calls w2 @ map MessagesList
                     (search_requests rejection_query (page_size w2) (length (index w2 rejection_query)) None),
               out := out w2 @ [FoundMessages (length ?hits)]\<rparr>"
  have lbl: "lid l \<in> lid ` set (labels ?w3)"
    using find_label_Some [OF fl] by simp
  have "\<forall>k<length (chunks chunk_size (map mid ?hits)). length (calls ?w3) + k \<notin> faults ?w3"
    using assms(3) fr1 fr2 by simp
  from add_label_to_messages_eq [OF assms(2) lbl this] obtain w4 where
    b: "add_label_to_messages svc (map mid ?hits) (lid l) ?w3 = (Inr (), w4)"
    and w4: "mailbox w4 = label_all (lid l) (map mid ?hits) (mailbox ?w3)"
      "labels w4 = labels ?w3" "FoundMessages (length ?hits) \<in> set (out w4)"
    by simp
  have "main fuel w = Some (Inr (), print_event DoneMessage w4)"
    using assms(1) l s b by (simp add: main_def)
  with w4 fl fr1 fr2 show ?thesis
    by (intro exI [of _ l] exI [of _ w4]) simp
qed

text \<open>C3: \<open>main\<close> refines the pipeline of the spec: every run that returns
  is a path of the step relation from Start to Done (on success) or to
  Failed (on the error it raises), ending in the same world.\<close>

theorem main_follows_pipeline:
  assumes "main fuel w = Some (r, w')"
  shows "rtranclp pipeline_step (Start, w) (outcome_stage r, w')"
  using assms
proof (cases rule: main_Some)
  case (auth_failed e)
  then show ?thesis by (simp add: outcome_stage_def pipeline_step.auth_failed r_into_rtranclp)
next
  case (label_failed svc w1 e)
  then show ?thesis
    by (simp add: outcome_stage_def)
       (meson converse_rtranclp_into_rtranclp r_into_rtranclp pipeline_step.auth_ok
          pipeline_step.label_failed)
next
  case (search_failed svc w1 lbl w2 e)
  then show ?thesis
    by (simp add: outcome_stage_def)
       (meson converse_rtranclp_into_rtranclp r_into_rtranclp pipeline_step.auth_ok
          pipeline_step.label_ok pipeline_step.search_failed)
next
  case (batch_failed svc w1 lbl w2 ms w3 e)
  then show ?thesis
    by (simp add: outcome_stage_def)
       (meson converse_rtranclp_into_rtranclp r_into_rtranclp pipeline_step.auth_ok
          pipeline_step.label_ok pipeline_step.search_ok pipeline_step.batch_failed)
next
  case (completed svc w1 lbl w2 ms w3 w4)
  then show ?thesis
    by (simp add: outcome_stage_def)
       (meson converse_rtranclp_into_rtranclp r_into_rtranclp pipeline_step.auth_ok
          pipeline_step.label_ok pipeline_step.search_ok pipeline_step.batch_ok pipeline_step.finish)
qed

theorem main_follows_pipeline_witness:
  "\<exists>w'. main 10 scenario_world = Some (Inr (), w') \<and>
        rtranclp pipeline_step (Start, scenario_world) (Done, w')"
proof -
  from scenario_completes obtain w1 where run: "main 10 scenario_world = Some (Inr (), w1)"
    by blast
  with main_follows_pipeline [OF run] show ?thesis by (simp add: outcome_stage_def)
qed

text \<open>C1: with a credential that has the scope, no failing request, a provider
  that pages forward and enough fuel, a run completes: it labels every message
  the rejection query finds with the identifier of the label named
  \<open>rejections\<close> up to case, reports how many it found, and ends with the
  completion message.\<close>

theorem main_labels_all_matches:
  assumes "get_gmail_service w = (Inr svc, w1)" and "authorized svc" and "faults w = {}"
      and "0 < page_size w" and "length (index w rejection_query) + 2 \<le> fuel"
  shows "\<exists>lbl w'. main fuel w = Some (Inr (), w') \<and>
           mailbox w' = label_all lbl (map mid (index w rejection_query)) (mailbox w) \<and>
           (\<exists>l\<in>set (labels w'). lid l = lbl \<and> lower (lname l) = lower label_name) \<and>
           FoundMessages (length (index w rejection_query)) \<in> set (out w') \<and>
           last (out w') = DoneMessage"
proof -
  from main_completes [OF assms] obtain l w4 where
    run: "main fuel w = Some (Inr (), print_event DoneMessage w4)"
    and fl: "find_label label_name (labels w4) = Some l"
    and mb: "mailbox w4 = label_all (lid l) (map mid (index w rejection_query)) (mailbox w)"
    and fm: "FoundMessages (length (index w rejection_query)) \<in> set (out w4)"
    by blast
  from find_label_Some [OF fl] have "l \<in> set (labels w4) \<and> lower (lname l) = lower label_name"
    by (simp add: name_matches_def)
  with run mb fm show ?thesis
    by (intro exI [of _ "lid l"] exI [of _ "print_event DoneMessage w4"]) auto
qed

theorem main_labels_all_matches_witness:
  "get_gmail_service scenario_world = (Inr modify_cred, scenario_world) \<and>
   authorized modify_cred \<and> faults scenario_world = {} \<and> 0 < page_size scenario_world \<and>
   length (index scenario_world rejection_query) + 2 \<le> 10 \<and>
   (\<exists>lbl w'. main 10 scenario_world = Some (Inr (), w') \<and>
      mailbox w' = label_all lbl (map mid (index scenario_world rejection_query)) (mailbox scenario_world) \<and>
      (\<exists>l\<in>set (labels w'). lid l = lbl \<and> lower (lname l) = lower label_name) \<and>
      FoundMessages (length (index scenario_world rejection_query)) \<in> set (out w') \<and>
      last (out w') = DoneMessage)"
proof -
  have hyps: "get_gmail_service scenario_world = (Inr modify_cred, scenario_world)"
    "authorized modify_cred" "faults scenario_world = {}" "0 < page_size scenario_world"
    "length (index scenario_world rejection_query) + 2 \<le> 10"
    by (simp_all add: model_simps get_gmail_service_stored_valid cred_valid_def authorized_def)
  from main_labels_all_matches [OF hyps] hyps show ?thesis by blast
qed



text \<open>C10: the progress output of a completed run: after the lines already
  printed come the label line (found or created, with the name
  \<open>rejections\<close>), the number of messages found, one line per batch with its
  size (or the no-messages line), and the completion line.\<close>

theorem main_console_report:
  assumes "main fuel w = Some (Inr (), w')"
  shows "\<exists>line. (\<exists>i. line = found_label_text label_name i \<or> line = created_label_text label_name i) \<and>
     console_lines w' = console_lines w @ line # found_messages_text (length (index w rejection_query)) #
       (if index w rejection_query = [] then [no_messages_text]
        else map (\<lambda>c. labeled_batch_text (length c)) (chunks 1000 (map mid (index w rejection_query))))
       @ [done_text]"
proof -
  from assms obtain svc w1 lbl w2 ms w3 w4 where
    a: "get_gmail_service w = (Inr svc, w1)"
    and l: "get_or_create_label svc label_name w1 = (Inr lbl, w2)"
    and s: "search_messages fuel svc rejection_query w2 = Some (Inr ms, w3)"
    and b: "add_label_to_messages svc ms lbl w3 = (Inr (), w4)"
    and w': "w' = print_event DoneMessage w4"
    by (cases rule: main_Some) auto
  note fr = get_gmail_service_frame [OF a] get_or_create_label_frame [OF l]
  have ms: "ms = map mid (index w rejection_query)"
    using search_messages_Inr [OF s] fr by simp
  have o3: "out w3 = out w2 @ [FoundMessages (length ms)]"
    by (rule search_messages_Inr_out [OF s])
  have o4: "out w4 = out w3 @ (if ms = [] then [NoMessagesToLabel]
                               else map (\<lambda>c. LabeledBatch (length c)) (chunks 1000 ms))"
    using add_label_to_messages_Inr_log [OF b] by (simp add: chunk_size_def)
  from get_or_create_label_Inr_out [OF l]
  show ?thesis
  proof (elim disjE)
    assume "out w2 = out w1 @ [FoundLabel label_name lbl]"
    with o3 o4 ms w' fr show ?thesis
      by (intro exI [of _ "found_label_text label_name lbl"]) (auto simp: console_lines_def)
  next
    assume "out w2 = out w1 @ [CreatedLabel label_name lbl]"
    with o3 o4 ms w' fr show ?thesis
      by (intro exI [of _ "created_label_text label_name lbl"]) (auto simp: console_lines_def)
  qed
qed

theorem main_console_report_witness:
  "\<exists>w'. main 10 scenario_world = Some (Inr (), w') \<and>
     (\<exists>line. (\<exists>i. line = found_label_text label_name i \<or> line = created_label_text label_name i) \<and>
       console_lines w' = console_lines scenario_world @
         line # found_messages_text (length (index scenario_world rejection_query)) #
         (if index scenario_world rejection_query = [] then [no_messages_text]
          else map (\<lambda>c. labeled_batch_text (length c))
                 (chunks 1000 (map mid (index scenario_world rejection_query)))) @ [done_text])"
proof -
  from scenario_completes obtain w1 where run: "main 10 scenario_world = Some (Inr (), w1)"
    by blast
  with main_console_report [OF run] show ?thesis by blast
qed

text \<open>C11: the spec's error taxonomy holds of the code: a failed run raises an
  authentication error and changes nothing; or a label lookup error and leaves
  labels and messages as they were; or a search error and leaves the messages
  untouched (the identifiers gathered so far are dropped); or a label apply
  error after some whole chunks of 1000 of the hits were labelled, with no
  compensating action.\<close>

theorem main_failure_kinds:
  assumes "main fuel w = Some (Inl e, w')"
  shows "(failure_kind_of e = AuthenticationFailure \<and> w' = w) \<or>
         (failure_kind_of e = LabelLookupFailure \<and> labels w' = labels w \<and> mailbox w' = mailbox w) \<or>
         (failure_kind_of e = SearchFailure \<and> mailbox w' = mailbox w) \<or>
         (failure_kind_of e = LabelApplyFailure \<and>
            (\<exists>lbl j. mailbox w' = label_all lbl (take (j * 1000) (map mid (index w rejection_query)))
                                     (mailbox w)))"
  using assms
proof (cases rule: main_Some)
  case (auth_failed e')
  then show ?thesis using get_gmail_service_Inl [of w e' w'] by auto
next
  case (label_failed svc w1 e')
  with get_or_create_label_Inl [OF label_failed(2)] get_gmail_service_frame [OF label_failed(1)]
  show ?thesis by auto
next
  case (search_failed svc w1 lbl w2 e')
  with search_messages_Inl [OF search_failed(3)] search_messages_frame [OF search_failed(3)]
    get_gmail_service_frame [OF search_failed(1)] get_or_create_label_frame [OF search_failed(2)]
  show ?thesis by auto
next
  case (batch_failed svc w1 lbl w2 ms w3 e')
  note fr = get_gmail_service_frame [OF batch_failed(1)] get_or_create_label_frame [OF batch_failed(2)]
    search_messages_frame [OF batch_failed(3)]
  have ms: "ms = map mid (index w rejection_query)"
    using search_messages_Inr [OF batch_failed(3)] fr by simp
  from add_label_to_messages_Inl [OF batch_failed(4)] obtain code b j where
    "e' = HttpError code (BatchModify b)"
    and "mailbox w' = label_all lbl (take (j * chunk_size) ms) (mailbox w3)"
    by blast
  with batch_failed fr ms show ?thesis by (auto simp: chunk_size_def)
next
  case (completed svc w1 lbl w2 ms w3 w4)
  then show ?thesis by simp
qed

theorem main_failure_kinds_witness:
  "\<exists>e w'. main 10 batch_fault_world = Some (Inl e, w') \<and> failure_kind_of e = LabelApplyFailure \<and>
     ((failure_kind_of e = AuthenticationFailure \<and> w' = batch_fault_world) \<or>
      (failure_kind_of e = LabelLookupFailure \<and> labels w' = labels batch_fault_world \<and>
         mailbox w' = mailbox batch_fault_world) \<or>
      (failure_kind_of e = SearchFailure \<and> mailbox w' = mailbox batch_fault_world) \<or>
      (failure_kind_of e = LabelApplyFailure \<and>
         (\<exists>lbl j. mailbox w' = label_all lbl (take (j * 1000) (map mid (index batch_fault_world rejection_query)))
                                  (mailbox batch_fault_world))))"
proof -
  have "\<exists>e w'. main 10 batch_fault_world = Some (Inl e, w') \<and> failure_kind_of e = LabelApplyFailure"
    unfolding main_ten by (simp add: model_simps)
  then obtain e w' where run: "main 10 batch_fault_world = Some (Inl e, w')"
    and k: "failure_kind_of e = LabelApplyFailure" by blast
  from main_failure_kinds [OF run] run k show ?thesis by blast
qed

text \<open>C12: the requests of a completed run, in order: one labels.list, at most
  one labels.create for the name \<open>rejections\<close>, the page requests of the
  search, then one batchModify per chunk of 1000 of the hits.\<close>

theorem main_request_log:
  assumes "main fuel w = Some (Inr (), w')" and "0 < page_size w"
  shows "\<exists>lbl creates. creates \<in> {[], [LabelsCreate (new_label_body label_name)]} \<and>
           calls w' = calls w @ LabelsList # creates @
             map MessagesList (search_requests rejection_query (page_size w) (length (index w rejection_query)) None) @
             map (\<lambda>c. BatchModify (batch_body_for lbl c)) (chunks 1000 (map mid (index w rejection_query)))"
proof -
  from assms(1) obtain svc w1 lbl w2 ms w3 w4 where
    a: "get_gmail_service w = (Inr svc, w1)"
    and l: "get_or_create_label svc label_name w1 = (Inr lbl, w2)"
    and s: "search_messages fuel svc rejection_query w2 = Some (Inr ms, w3)"
    and b: "add_label_to_messages svc ms lbl w3 = (Inr (), w4)"
    and w': "w' = print_event DoneMessage w4"
    by (cases rule: main_Some) auto
  note fr = get_gmail_service_frame [OF a] get_or_create_label_frame [OF l]
  have ms: "ms = map mid (index w rejection_query)"
    using search_messages_Inr [OF s] fr by simp
  have c3: "calls w3 = calls w2 @ map MessagesList
      (search_requests rejection_query (page_size w) (length (index w rejection_query)) None)"
    using search_messages_Inr_calls [OF s] assms(2) fr by simp
  have c4: "calls w4 = calls w3 @ map (\<lambda>c. BatchModify (batch_body_for lbl c)) (chunks 1000 ms)"
    using add_label_to_messages_Inr_log [OF b] by (simp add: chunk_size_def)
  from get_or_create_label_Inr_calls [OF l] obtain creates where
    "creates \<in> {[], [LabelsCreate (new_label_body label_name)]}" and "calls w2 = calls w1 @ LabelsList # creates"
    by auto
  with c3 c4 ms w' fr show ?thesis by (intro exI [of _ lbl] exI [of _ creates]) simp
qed

theorem main_request_log_witness:
  "\<exists>w'. main 10 scenario_world = Some (Inr (), w') \<and> 0 < page_size scenario_world \<and>
     (\<exists>lbl creates. creates \<in> {[], [LabelsCreate (new_label_body label_name)]} \<and>
        calls w' = calls scenario_world @ LabelsList # creates @
          map MessagesList (search_requests rejection_query (page_size scenario_world)
                              (length (index scenario_world rejection_query)) None) @
          map (\<lambda>c. BatchModify (batch_body_for lbl c)) (chunks 1000 (map mid (index scenario_world rejection_query))))"
proof -
  from scenario_completes obtain w1 where run: "main 10 scenario_world = Some (Inr (), w1)"
    by blast
  have ps: "0 < page_size scenario_world" by (simp add: model_simps)
  from main_request_log [OF run ps] run ps show ?thesis by blast
qed

text \<open>C2: when the mailbox already has a label named \<open>rejections\<close> up to
  case, a run under the same conditions as C1 completes without creating a
  label: it labels every hit with the first matching label's identifier and
  prints that label as found.\<close>

theorem main_existing_label:
  assumes "get_gmail_service w = (Inr svc, w1)" and "authorized svc" and "faults w = {}"
      and "0 < page_size w" and "length (index w rejection_query) + 2 \<le> fuel"
      and "find_label label_name (labels w) = Some l"
  shows "\<exists>w'. main fuel w = Some (Inr (), w') \<and> labels w' = labels w \<and>
           mailbox w' = label_all (lid l) (map mid (index w rejection_query)) (mailbox w) \<and>
           FoundLabel label_name (lid l) \<in> set (out w')"
proof -
  from main_completes [OF assms(1-5)] obtain l' w4 where
    run: "main fuel w = Some (Inr (), print_event DoneMessage w4)"
    and fl': "find_label label_name (labels w4) = Some l'"
    and mb: "mailbox w4 = label_all (lid l') (map mid (index w rejection_query)) (mailbox w)"
    by blast
  from run obtain svc' w1' lbl w2 ms w3 w4' where
    a: "get_gmail_service w = (Inr svc', w1')"
    and lr: "get_or_create_label svc' label_name w1' = (Inr lbl, w2)"
    and s: "search_messages fuel svc' rejection_query w2 = Some (Inr ms, w3)"
    and b: "add_label_to_messages svc' ms lbl w3 = (Inr (), w4')"
    and w4: "print_event DoneMessage w4 = print_event DoneMessage w4'"
    by (cases rule: main_Some) auto
  note fr = get_gmail_service_frame [OF a]
  have "find_label label_name (labels w1') = Some l"
    using assms(6) fr by simp
  from get_or_create_label_found_Inr [OF this lr]
  have l2: "lbl = lid l" "labels w2 = labels w1'" "out w2 = out w1' @ [FoundLabel label_name (lid l)]"
    by auto
  have w4': "labels w4 = labels w4'" "out w4 = out w4'"
    using w4 by (metis print_event_fields(1), metis print_event_fields(5) butlast_snoc)
  have "labels w4 = labels w"
    using w4' add_label_to_messages_frame [OF b] search_messages_frame [OF s] l2 fr by simp
  with fl' assms(6) have "l' = l" by simp
  have "\<exists>xs. out w4' = out w3 @ xs"
    using add_label_to_messages_Inr_log [OF b] by auto
  then have "FoundLabel label_name (lid l) \<in> set (out w4)"
    using w4' l2 search_messages_Inr_out [OF s] by auto
  with run mb \<open>l' = l\<close> \<open>labels w4 = labels w\<close> show ?thesis
    by (intro exI [of _ "print_event DoneMessage w4"]) auto
qed

theorem main_existing_label_witness:
  "get_gmail_service scenario_world = (Inr modify_cred, scenario_world) \<and>
   authorized modify_cred \<and> faults scenario_world = {} \<and> 0 < page_size scenario_world \<and>
   length (index scenario_world rejection_query) + 2 \<le> 10 \<and>
   find_label label_name (labels scenario_world) = Some rejections_label \<and>
   (\<exists>w'. main 10 scenario_world = Some (Inr (), w') \<and> labels w' = labels scenario_world \<and>
      mailbox w' = label_all (lid rejections_label) (map mid (index scenario_world rejection_query))
                     (mailbox scenario_world) \<and>
      FoundLabel label_name (lid rejections_label) \<in> set (out w'))"
proof -
  have hyps: "get_gmail_service scenario_world = (Inr modify_cred, scenario_world)"
    "authorized modify_cred" "faults scenario_world = {}" "0 < page_size scenario_world"
    "length (index scenario_world rejection_query) + 2 \<le> 10"
    "find_label label_name (labels scenario_world) = Some rejections_label"
    by (simp_all add: model_simps get_gmail_service_stored_valid cred_valid_def authorized_def)
  from main_existing_label [OF hyps] hyps show ?thesis by blast
qed



end
